theory Spec2Isabelle
  imports Main "HOL-Library.Word"
begin

section \<open>The Java (yoshi) release strategy: \<^verbatim>\<open>src/strategies/java-yoshi.ts\<close>\<close>

subsection \<open>Strings\<close>

text \<open>
  A JavaScript string is a sequence of UTF-16 code units. The regular expressions of
  the strategy are written without the \<^verbatim>\<open>u\<close> flag, so they work on code units, and
  \<^verbatim>\<open>.\<close> refuses the four line terminators, two of which (U+2028, U+2029) lie
  outside Latin-1. Strings are therefore lists of 16-bit words; \<open>js\<close> turns an
  (ASCII) literal into such a string.
\<close>

type_synonym code_unit = "16 word"
type_synonym jsstring = "code_unit list"

definition js :: "string \<Rightarrow> jsstring" where
  "js s = map of_char s"

subsection \<open>Commits\<close>

text \<open>
  \<^verbatim>\<open>ConventionalCommit\<close> of \<^verbatim>\<open>../commit\<close>: its notes are title/text pairs (the fields
  \<^verbatim>\<open>text\<close> and \<^verbatim>\<open>notes\<close> are written \<open>text'\<close> and \<open>notes'\<close>). The
  issue references of a commit are not inspected by the strategy; their type is a
  parameter.
\<close>

record Note =
  title :: jsstring
  text' :: jsstring

record 'r ConventionalCommit =
  type :: jsstring
  bareMessage :: jsstring
  message :: jsstring
  breaking :: bool
  scope :: "jsstring option"
  notes' :: "Note list"
  files :: "jsstring list"
  references :: "'r list"
  sha :: jsstring

subsection \<open>postProcessCommits\<close>

text \<open>
  \<^verbatim>\<open>if (commits.length === 0) { commits.push({...}) } return commits;\<close>
  The array is extended in place and returned; the model returns the new list.
  \<open>scope = None\<close> is the source's \<^verbatim>\<open>scope: null\<close>.
\<close>

definition fakeCommit :: "'r ConventionalCommit" where
  "fakeCommit =
     \<lparr> type = js ''fake'',
       bareMessage = js ''fake commit'',
       message = js ''fake commit'',
       breaking = False,
       scope = None,
       notes' = [],
       files = [],
       references = [],
       sha = js ''fake'' \<rparr>"

definition postProcessCommits :: "'r ConventionalCommit list \<Rightarrow> 'r ConventionalCommit list" where
  "postProcessCommits commits =
     (if length commits = 0 then commits @ [fakeCommit] else commits)"

subsection \<open>Regular expressions\<close>

text \<open>
  The two patterns of the strategy use the start and end anchors, single characters,
  the classes \<^verbatim>\<open>.\<close>, \<^verbatim>\<open>\d\<close> and \<^verbatim>\<open>[^-]\<close>, the greedy quantifiers \<^verbatim>\<open>*\<close> and
  \<^verbatim>\<open>+\<close> on such a class, and one capture group. A pattern is a sequence of items
  before the group, the items of the group and the items after it.
\<close>

definition lineTerminator :: "code_unit \<Rightarrow> bool" where
  "lineTerminator c = (c = 0x000A \<or> c = 0x000D \<or> c = 0x2028 \<or> c = 0x2029)"

definition isDigit :: "code_unit \<Rightarrow> bool" where
  "isDigit c = (0x0030 \<le> c \<and> c \<le> 0x0039)"

datatype atom = Dot | Digit | Lit code_unit | NotLit code_unit

fun accepts :: "atom \<Rightarrow> code_unit \<Rightarrow> bool" where
  "accepts Dot c = (\<not> lineTerminator c)"
| "accepts Digit c = isDigit c"
| "accepts (Lit a) c = (c = a)"
| "accepts (NotLit a) c = (c \<noteq> a)"

datatype item = Bol | Eol | One atom | Star atom | Plus atom

datatype regex = Regex "item list" "item list" "item list"

text \<open>
  A backtracking matcher tries the alternatives of a quantifier in a fixed order (a
  greedy quantifier takes one more character first) and returns the first way that
  lets the rest of the pattern match. \<open>runs\<close> lists every way in that order: each
  entry is the index reached and the input left there. No \<^verbatim>\<open>m\<close> flag is set,
  so \<^verbatim>\<open>^\<close> holds at index 0 only and \<^verbatim>\<open>$\<close> at the end of the input only.
\<close>

fun runs :: "item list \<Rightarrow> nat \<Rightarrow> jsstring \<Rightarrow> (nat \<times> jsstring) list" where
  "runs [] i cs = [(i, cs)]"
| "runs (Bol # r) i cs = (if i = 0 then runs r i cs else [])"
| "runs (Eol # r) i cs = (if cs = [] then runs r i cs else [])"
| "runs (One a # r) i [] = []"
| "runs (One a # r) i (c # cs) = (if accepts a c then runs r (Suc i) cs else [])"
| "runs (Star a # r) i [] = runs r i []"
| "runs (Star a # r) i (c # cs) =
     (if accepts a c then runs (Star a # r) (Suc i) cs @ runs r i (c # cs)
      else runs r i (c # cs))"
| "runs (Plus a # r) i [] = []"
| "runs (Plus a # r) i (c # cs) =
     (if accepts a c then runs (Star a # r) (Suc i) cs else [])"

text \<open>
  The match array of a successful match: \<open>whole\<close> is element 0, \<open>group1\<close> is
  element 1 (the group of these patterns is not optional, so it is a string whenever
  the match succeeds).
\<close>

record RegExpMatchArray =
  whole :: jsstring
  group1 :: jsstring

fun matchAt :: "regex \<Rightarrow> nat \<Rightarrow> jsstring \<Rightarrow> RegExpMatchArray list" where
  "matchAt (Regex pre grp post) i cs =
     [\<lparr> whole = take (i3 - i) cs, group1 = take (i2 - i1) r1 \<rparr>.
        (i1, r1) \<leftarrow> runs pre i cs, (i2, r2) \<leftarrow> runs grp i1 r1,
        (i3, r3) \<leftarrow> runs post i2 r2]"

text \<open>
  Without the \<^verbatim>\<open>g\<close> and \<^verbatim>\<open>y\<close> flags a match is tried at index 0, then at
  index 1 and so on to the end of the input; the first index with a match wins.
\<close>

fun exec :: "regex \<Rightarrow> nat \<Rightarrow> jsstring \<Rightarrow> RegExpMatchArray option" where
  "exec re i [] = (case matchAt re i [] of m # _ \<Rightarrow> Some m | [] \<Rightarrow> None)"
| "exec re i (c # cs) =
     (case matchAt re i (c # cs) of m # _ \<Rightarrow> Some m | [] \<Rightarrow> exec re (Suc i) cs)"

definition String_match :: "jsstring \<Rightarrow> regex \<Rightarrow> RegExpMatchArray option" where
  "String_match s re = exec re 0 s"

subsection \<open>isStableArtifact\<close>

text \<open>
  \<^verbatim>\<open>const VERSIONED_ARTIFACT_REGEX = /^.*-(v\d+[^-]*)$/;\<close>
  \<^verbatim>\<open>const VERSION_REGEX = /^v\d+(.*)$/;\<close>
\<close>

definition VERSIONED_ARTIFACT_REGEX :: regex where
  "VERSIONED_ARTIFACT_REGEX =
     Regex [Bol, Star Dot, One (Lit (of_char CHR ''-''))]
           [One (Lit (of_char CHR ''v'')), Plus Digit, Star (NotLit (of_char CHR ''-''))]
           [Eol]"

definition VERSION_REGEX :: regex where
  "VERSION_REGEX =
     Regex [Bol, One (Lit (of_char CHR ''v'')), Plus Digit]
           [Star Dot]
           [Eol]"

text \<open>
  \<^verbatim>\<open>versionMatch && versionMatch[1]\<close> is truthy when the second pattern matches and
  its group is not the empty string.
\<close>

definition isStableArtifact :: "jsstring \<Rightarrow> bool" where
  "isStableArtifact artifact =
     (case String_match artifact VERSIONED_ARTIFACT_REGEX of
        None \<Rightarrow> True
      | Some m \<Rightarrow>
          (case String_match (group1 m) VERSION_REGEX of
             None \<Rightarrow> True
           | Some versionMatch \<Rightarrow> if group1 versionMatch \<noteq> [] then False else True))"

subsection \<open>Promotion notes\<close>

definition isPromotionNote :: "Note \<Rightarrow> bool" where
  "isPromotionNote note \<longleftrightarrow> title note = js ''RELEASE AS'' \<and> text' note = js ''1.0.0''"

definition isPromotionCommit :: "'r ConventionalCommit \<Rightarrow> bool" where
  "isPromotionCommit commit \<longleftrightarrow> list_ex isPromotionNote (notes' commit)"

subsection \<open>The versions map\<close>

text \<open>
  \<^verbatim>\<open>VersionsMap = Map<string, Version>\<close>: a JavaScript \<^verbatim>\<open>Map\<close> keeps its entries in
  insertion order, \<^verbatim>\<open>set\<close> replaces the value of a present key where it stands and
  appends an absent key at the end, \<^verbatim>\<open>get\<close> of an absent key is \<^verbatim>\<open>undefined\<close>.
  The type promises a \<^verbatim>\<open>Version\<close> for every key, but the value read at run time can
  still be \<^verbatim>\<open>undefined\<close>, and the strategy checks for it: the value of an entry is
  a \<^verbatim>\<open>Version\<close> or \<open>None\<close>, which is \<^verbatim>\<open>undefined\<close>. The class \<^verbatim>\<open>Version\<close> is
  imported from \<^verbatim>\<open>../version\<close>; its type is the parameter \<open>'v\<close>.
\<close>

type_synonym 'v VersionsMap = "(jsstring \<times> 'v option) list"

definition Map_keys :: "'v VersionsMap \<Rightarrow> jsstring list" where
  "Map_keys m = map fst m"

definition Map_get :: "'v VersionsMap \<Rightarrow> jsstring \<Rightarrow> 'v option" where
  "Map_get m k = (case map_of m k of None \<Rightarrow> None | Some stored \<Rightarrow> stored)"

fun Map_set :: "'v VersionsMap \<Rightarrow> jsstring \<Rightarrow> 'v \<Rightarrow> 'v VersionsMap" where
  "Map_set [] k v = [(k, Some v)]"
| "Map_set ((k', v') # m) k v = (if k' = k then (k', Some v) # m else (k', v') # Map_set m k v)"

text \<open>A map as its type describes it: every entry holds a \<^verbatim>\<open>Version\<close>.\<close>

definition versionsMapOf :: "(jsstring \<times> 'v) list \<Rightarrow> 'v VersionsMap" where
  "versionsMapOf entries = map (\<lambda>(k, version). (k, Some version)) entries"

subsection \<open>The strategy instance\<close>

text \<open>
  What a call can throw. \<^verbatim>\<open>FileNotFoundError\<close> carries the path that was not
  found, \<^verbatim>\<open>MissingRequiredFileError\<close> the file, the name of the component that
  needs it and the repository; \<open>OtherError\<close> is any other value thrown.
\<close>

datatype error =
    FileNotFoundError jsstring
  | MissingRequiredFileError jsstring jsstring jsstring
  | OtherError jsstring

text \<open>
  The collaborators of the instance. Each is what it answers, a function, together
  with what it has been asked so far: \<open>requests\<close> lists the (path, branch) pairs
  passed to \<^verbatim>\<open>getFileContentsOnBranch\<close>, \<open>bumped\<close> the arguments passed to
  \<^verbatim>\<open>bump\<close>, \<open>warnings\<close> the messages passed to \<^verbatim>\<open>logger.warn\<close>. The type
  \<open>'c\<close> is \<^verbatim>\<open>GitHubFileContents\<close>.
\<close>

record 'c GitHub =
  getFileContentsOnBranch :: "jsstring \<Rightarrow> jsstring \<Rightarrow> error + 'c"
  findFilesByFilenameAndRef :: "jsstring \<Rightarrow> jsstring \<Rightarrow> jsstring \<Rightarrow> error + jsstring list"
  requests :: "(jsstring \<times> jsstring) list"

record ('v, 'r) VersioningStrategy =
  bump :: "'v \<Rightarrow> 'r ConventionalCommit list \<Rightarrow> 'v"
  bumped :: "('v \<times> 'r ConventionalCommit list) list"

record Logger =
  warnings :: "jsstring list"

record Repository =
  owner :: jsstring
  repo :: jsstring

text \<open>
  An extra file of the configuration is a plain path or an object
  (\<^verbatim>\<open>typeof extraFile === 'object'\<close>), of type \<open>'x\<close>.
\<close>

datatype 'x ExtraFile = ExtraPath jsstring | ExtraObject 'x

text \<open>
  The fields of the instance that the strategy reads, and its one private field
  \<open>versionsContent\<close> (\<open>None\<close> is \<^verbatim>\<open>undefined\<close>). \<open>path'\<close> is \<^verbatim>\<open>this.path\<close>.
  \<^verbatim>\<open>addPath\<close> is a method of the base class, which is not part of this file: it is
  a field here.
\<close>

record ('c, 'v, 'r, 'x) JavaYoshi =
  path' :: jsstring
  targetBranch :: jsstring
  repository :: Repository
  extraFiles :: "'x ExtraFile list"
  changelogPath :: jsstring
  skipChangelog :: bool
  github :: "'c GitHub"
  versioningStrategy :: "('v, 'r) VersioningStrategy"
  logger :: Logger
  addPath :: "jsstring \<Rightarrow> jsstring"
  versionsContent :: "'c option"

subsection \<open>getVersionsContent\<close>

text \<open>
  The call returns the contents or throws, and leaves the instance changed: the
  request is recorded, and a fetched value is kept in \<open>versionsContent\<close>.
  \<^verbatim>\<open>JavaYoshi.name\<close> is the name of the class.
\<close>

definition getVersionsContent ::
  "('c, 'v, 'r, 'x) JavaYoshi \<Rightarrow> (error + 'c) \<times> ('c, 'v, 'r, 'x) JavaYoshi" where
  "getVersionsContent this =
     (case versionsContent this of
        Some contents \<Rightarrow> (Inr contents, this)
      | None \<Rightarrow>
          (let asked = this\<lparr>github := (github this)
                 \<lparr>requests := requests (github this)
                    @ [(addPath this (js ''versions.txt''), targetBranch this)]\<rparr>\<rparr>
           in case getFileContentsOnBranch (github this)
                     (addPath this (js ''versions.txt'')) (targetBranch this) of
                Inr contents \<Rightarrow> (Inr contents, asked\<lparr>versionsContent := Some contents\<rparr>)
              | Inl err \<Rightarrow>
                  (case err of
                     FileNotFoundError _ \<Rightarrow>
                       (Inl (MissingRequiredFileError
                               (addPath this (js ''versions.txt''))
                               (js ''JavaYoshi'')
                               (owner (repository this) @ js ''/'' @ repo (repository this))),
                        asked)
                   | _ \<Rightarrow> (Inl err, asked))))"

text \<open>A caller that asks for the contents \<open>n\<close> times in a row, and what it is given.\<close>

fun getVersionsContent_times ::
  "nat \<Rightarrow> ('c, 'v, 'r, 'x) JavaYoshi \<Rightarrow> (error + 'c) list \<times> ('c, 'v, 'r, 'x) JavaYoshi" where
  "getVersionsContent_times 0 this = ([], this)"
| "getVersionsContent_times (Suc n) this =
     (case getVersionsContent this of
        (result, this') \<Rightarrow>
          (case getVersionsContent_times n this' of
             (results, this'') \<Rightarrow> (result # results, this'')))"

subsection \<open>updateVersionsMap\<close>

text \<open>
  The body of the first loop, on the variables \<^verbatim>\<open>isPromotion\<close> and
  \<^verbatim>\<open>modifiedCommits\<close>: a promotion commit is pushed without its promotion notes, any
  other commit as it is.
\<close>

definition scanCommit ::
  "'r ConventionalCommit \<Rightarrow> bool \<times> 'r ConventionalCommit list \<Rightarrow> bool \<times> 'r ConventionalCommit list" where
  "scanCommit commit = (\<lambda>(isPromotion, modifiedCommits).
     if isPromotionCommit commit
     then (True, modifiedCommits @
             [commit\<lparr>notes' := filter (\<lambda>note. \<not> isPromotionNote note) (notes' commit)\<rparr>])
     else (isPromotion, modifiedCommits @ [commit]))"

text \<open>
  The body of the second loop, on the map and the instance. \<^verbatim>\<open>Version.parse\<close> is
  imported from \<^verbatim>\<open>../version\<close>: it is the parameter \<open>Version_parse\<close>. A \<^verbatim>\<open>Version\<close>
  is an object, so \<^verbatim>\<open>!version\<close> holds only for \<^verbatim>\<open>undefined\<close>: the key is not in the
  map, or its entry holds no \<^verbatim>\<open>Version\<close>.
\<close>

definition bumpKey ::
  "(jsstring \<Rightarrow> 'v) \<Rightarrow> bool \<Rightarrow> 'r ConventionalCommit list \<Rightarrow> jsstring \<Rightarrow>
   'v VersionsMap \<times> ('c, 'v, 'r, 'x) JavaYoshi \<Rightarrow> 'v VersionsMap \<times> ('c, 'v, 'r, 'x) JavaYoshi" where
  "bumpKey Version_parse isPromotion modifiedCommits versionKey = (\<lambda>(versionsMap, this).
     case Map_get versionsMap versionKey of
       None \<Rightarrow>
         (versionsMap,
          this\<lparr>logger := (logger this)
            \<lparr>warnings := warnings (logger this) @ [js ''didn't find version for '' @ versionKey]\<rparr>\<rparr>)
     | Some version \<Rightarrow>
         if isPromotion \<and> isStableArtifact versionKey
         then (Map_set versionsMap versionKey (Version_parse (js ''1.0.0'')), this)
         else
           (let newVersion = bump (versioningStrategy this) version modifiedCommits
            in (Map_set versionsMap versionKey newVersion,
                this\<lparr>versioningStrategy := (versioningStrategy this)
                  \<lparr>bumped := bumped (versioningStrategy this) @ [(version, modifiedCommits)]\<rparr>\<rparr>)))"

text \<open>
  The second loop runs over the keys of the map while it sets values in it. It sets
  the value of a key that \<^verbatim>\<open>get\<close> has just found, so no entry is added and the
  iterator visits the keys the map had at the start.
\<close>

definition updateVersionsMap ::
  "(jsstring \<Rightarrow> 'v) \<Rightarrow> ('c, 'v, 'r, 'x) JavaYoshi \<Rightarrow> 'v VersionsMap \<Rightarrow> 'r ConventionalCommit list \<Rightarrow>
   'v VersionsMap \<times> ('c, 'v, 'r, 'x) JavaYoshi" where
  "updateVersionsMap Version_parse this versionsMap conventionalCommits =
     (case fold scanCommit conventionalCommits (False, []) of
        (isPromotion, modifiedCommits) \<Rightarrow>
          fold (bumpKey Version_parse isPromotion modifiedCommits)
            (Map_keys versionsMap) (versionsMap, this))"

subsection \<open>buildUpdates\<close>

text \<open>
  The updaters are built here and run elsewhere: an updater is the class and the
  arguments of its constructor.
\<close>

datatype 'v Updater =
    VersionsManifest 'v "'v VersionsMap"
  | JavaUpdate 'v "'v VersionsMap" bool
  | Changelog 'v jsstring

record ('c, 'v) Update =
  path :: jsstring
  createIfMissing :: bool
  cachedFileContents :: "'c option"
  updater :: "'v Updater"

record 'v JavaBuildUpdatesOption =
  newVersion :: 'v
  versionsMap :: "'v VersionsMap"
  isSnapshot :: bool
  changelogEntry :: jsstring

text \<open>\<^verbatim>\<open>xs.forEach(x => { ... })\<close> with the variables its body assigns as the state.\<close>

definition forEach :: "'a list \<Rightarrow> ('a \<Rightarrow> 's \<Rightarrow> 's) \<Rightarrow> 's \<Rightarrow> 's" where
  "forEach xs body s = fold body xs s"

text \<open>
  The three searches are started before the first is awaited, and awaited in the
  order pom.xml, build.gradle, dependencies.properties: a search that fails is thrown
  from its \<^verbatim>\<open>await\<close>. A descriptor without \<^verbatim>\<open>cachedFileContents\<close> has \<open>None\<close>.
\<close>

definition buildUpdates ::
  "('c, 'v, 'r, 'x) JavaYoshi \<Rightarrow> 'v JavaBuildUpdatesOption \<Rightarrow> error + ('c, 'v) Update list" where
  "buildUpdates this options =
     (let version = newVersion options;
          versionsMap = versionsMap options;
          updates = [\<lparr> path = addPath this (js ''versions.txt''),
                       createIfMissing = False,
                       cachedFileContents = versionsContent this,
                       updater = VersionsManifest version versionsMap \<rparr>];
          pomFilesSearch = findFilesByFilenameAndRef (github this)
                             (js ''pom.xml'') (targetBranch this) (path' this);
          buildFilesSearch = findFilesByFilenameAndRef (github this)
                               (js ''build.gradle'') (targetBranch this) (path' this);
          dependenciesSearch = findFilesByFilenameAndRef (github this)
                                 (js ''dependencies.properties'') (targetBranch this) (path' this)
      in case pomFilesSearch of
           Inl err \<Rightarrow> Inl err
         | Inr pomFiles \<Rightarrow>
      (let updates = forEach pomFiles (\<lambda>path updates. updates @
                       [\<lparr> path = addPath this path,
                          createIfMissing = False,
                          cachedFileContents = None,
                          updater = JavaUpdate version versionsMap (isSnapshot options) \<rparr>]) updates
       in case buildFilesSearch of
            Inl err \<Rightarrow> Inl err
          | Inr buildFiles \<Rightarrow>
      (let updates = forEach buildFiles (\<lambda>path updates. updates @
                       [\<lparr> path = addPath this path,
                          createIfMissing = False,
                          cachedFileContents = None,
                          updater = JavaUpdate version versionsMap (isSnapshot options) \<rparr>]) updates
       in case dependenciesSearch of
            Inl err \<Rightarrow> Inl err
          | Inr dependenciesFiles \<Rightarrow>
      (let updates = forEach dependenciesFiles (\<lambda>path updates. updates @
                       [\<lparr> path = addPath this path,
                          createIfMissing = False,
                          cachedFileContents = None,
                          updater = JavaUpdate version versionsMap (isSnapshot options) \<rparr>]) updates;
           updates = forEach (extraFiles this) (\<lambda>extraFile updates.
                       case extraFile of
                         ExtraObject _ \<Rightarrow> updates
                       | ExtraPath extraFile \<Rightarrow> updates @
                           [\<lparr> path = extraFile,
                              createIfMissing = False,
                              cachedFileContents = None,
                              updater = JavaUpdate version versionsMap (isSnapshot options) \<rparr>])
                       updates;
           updates = (if \<not> isSnapshot options \<and> \<not> skipChangelog this
                      then updates @
                        [\<lparr> path = addPath this (changelogPath this),
                           createIfMissing = True,
                           cachedFileContents = None,
                           updater = Changelog version (changelogEntry options) \<rparr>]
                      else updates)
       in Inr updates))))"

subsection \<open>Notions the properties are stated with\<close>

text \<open>The plain paths among the extra files, in the order of the configuration.\<close>

fun plainPaths :: "'x ExtraFile list \<Rightarrow> jsstring list" where
  "plainPaths [] = []"
| "plainPaths (ExtraPath file # rest) = file # plainPaths rest"
| "plainPaths (ExtraObject _ # rest) = plainPaths rest"

text \<open>A changelog descriptor is one whose updater is a \<^verbatim>\<open>Changelog\<close>.\<close>

fun isChangelog :: "'v Updater \<Rightarrow> bool" where
  "isChangelog (Changelog _ _) = True"
| "isChangelog _ = False"

text \<open>
  An instance to try the properties on: a module \<^verbatim>\<open>java\<close> with one pom.xml, one
  build.gradle, no dependencies.properties, one plain extra file and one extra file
  given as an object. Its versions are strings and \<^verbatim>\<open>bump\<close> appends ".1".
\<close>

definition exampleGitHub :: "jsstring GitHub" where
  "exampleGitHub =
     \<lparr> getFileContentsOnBranch = (\<lambda>path branch.
         if path = js ''java/versions.txt'' then Inr (js ''core:1.2.3:1.2.3'')
         else Inl (FileNotFoundError path)),
       findFilesByFilenameAndRef = (\<lambda>filename ref prefix.
         if filename = js ''pom.xml'' then Inr [js ''pom.xml'']
         else if filename = js ''build.gradle'' then Inr [js ''build.gradle'']
         else Inr []),
       requests = [] \<rparr>"

definition exampleStrategy :: "(jsstring, jsstring, unit, unit) JavaYoshi" where
  "exampleStrategy =
     \<lparr> path' = js ''java'',
       targetBranch = js ''main'',
       repository = \<lparr> owner = js ''googleapis'', repo = js ''java-lib'' \<rparr>,
       extraFiles = [ExtraPath (js ''README.md''), ExtraObject ()],
       changelogPath = js ''CHANGELOG.md'',
       skipChangelog = False,
       github = exampleGitHub,
       versioningStrategy = \<lparr> bump = (\<lambda>version commits. version @ js ''.1''), bumped = [] \<rparr>,
       logger = \<lparr> warnings = [] \<rparr>,
       addPath = (\<lambda>file. js ''java/'' @ file),
       versionsContent = None \<rparr>"

definition exampleOptions :: "jsstring JavaBuildUpdatesOption" where
  "exampleOptions =
     \<lparr> newVersion = js ''1.2.4'',
       versionsMap = versionsMapOf [(js ''core'', js ''1.2.4''), (js ''core-v2beta'', js ''0.3.0'')],
       isSnapshot = False,
       changelogEntry = js ''### Bug Fixes'' \<rparr>"

definition exampleCommit :: "unit ConventionalCommit" where
  "exampleCommit =
     \<lparr> type = js ''feat'',
       bareMessage = js ''promote to GA'',
       message = js ''feat: promote to GA'',
       breaking = False,
       scope = None,
       notes' = [\<lparr> title = js ''RELEASE AS'', text' = js ''1.0.0'' \<rparr>,
                 \<lparr> title = js ''BREAKING CHANGE'', text' = js ''new API'' \<rparr>],
       files = [],
       references = [],
       sha = js ''abc123'' \<rparr>"

section \<open>Properties\<close>

subsection \<open>The matcher\<close>

text \<open>
  Which entries \<open>runs\<close> lists for each kind of item, and which entry a greedy
  quantifier lists first.
\<close>

lemma runs_One_iff:
  "x \<in> set (runs (One a # r) i cs) \<longleftrightarrow>
     (\<exists>c w. cs = c # w \<and> accepts a c \<and> x \<in> set (runs r (Suc i) w))"
  by (cases cs) auto

lemma runs_Star_iff:
  "x \<in> set (runs (Star a # r) i cs) \<longleftrightarrow>
     (\<exists>u w. cs = u @ w \<and> list_all (accepts a) u \<and> x \<in> set (runs r (i + length u) w))"
proof (induction cs arbitrary: i)
  case Nil
  then show ?case by simp
next
  case (Cons c cs)
  show ?case
  proof
    assume "x \<in> set (runs (Star a # r) i (c # cs))"
    then consider (more) "accepts a c" "x \<in> set (runs (Star a # r) (Suc i) cs)"
      | (stop) "x \<in> set (runs r i (c # cs))"
      by (auto split: if_splits)
    then show "\<exists>u w. c # cs = u @ w \<and> list_all (accepts a) u \<and> x \<in> set (runs r (i + length u) w)"
    proof cases
      case more
      then obtain u w where "cs = u @ w" "list_all (accepts a) u" "x \<in> set (runs r (Suc i + length u) w)"
        using Cons.IH by blast
      with more(1) have "c # cs = (c # u) @ w \<and> list_all (accepts a) (c # u) \<and> x \<in> set (runs r (i + length (c # u)) w)"
        by simp
      then show ?thesis by blast
    next
      case stop
      then have "c # cs = [] @ (c # cs) \<and> list_all (accepts a) [] \<and> x \<in> set (runs r (i + length ([] :: jsstring)) (c # cs))"
        by simp
      then show ?thesis by blast
    qed
  next
    assume "\<exists>u w. c # cs = u @ w \<and> list_all (accepts a) u \<and> x \<in> set (runs r (i + length u) w)"
    then obtain u w where uw: "c # cs = u @ w" "list_all (accepts a) u" "x \<in> set (runs r (i + length u) w)"
      by blast
    show "x \<in> set (runs (Star a # r) i (c # cs))"
    proof (cases u)
      case Nil
      with uw have "x \<in> set (runs r i (c # cs))" by simp
      then show ?thesis by simp
    next
      case (Cons d u')
      with uw have "d = c" "cs = u' @ w" "accepts a c" "list_all (accepts a) u'" "x \<in> set (runs r (Suc i + length u') w)"
        by simp_all
      then have "x \<in> set (runs (Star a # r) (Suc i) cs)"
        using Cons.IH by blast
      with \<open>accepts a c\<close> show ?thesis by simp
    qed
  qed
qed

lemma runs_Plus_iff:
  "x \<in> set (runs (Plus a # r) i cs) \<longleftrightarrow>
     (\<exists>u w. cs = u @ w \<and> u \<noteq> [] \<and> list_all (accepts a) u \<and> x \<in> set (runs r (i + length u) w))"
proof (cases cs)
  case Nil
  then show ?thesis by simp
next
  case (Cons c cs')
  show ?thesis
  proof
    assume "x \<in> set (runs (Plus a # r) i cs)"
    with Cons have c: "accepts a c" and "x \<in> set (runs (Star a # r) (Suc i) cs')"
      by (auto split: if_splits)
    then obtain u w where "cs' = u @ w" "list_all (accepts a) u" "x \<in> set (runs r (Suc i + length u) w)"
      unfolding runs_Star_iff by blast
    with c Cons have "cs = (c # u) @ w \<and> c # u \<noteq> [] \<and> list_all (accepts a) (c # u) \<and> x \<in> set (runs r (i + length (c # u)) w)"
      by simp
    then show "\<exists>u w. cs = u @ w \<and> u \<noteq> [] \<and> list_all (accepts a) u \<and> x \<in> set (runs r (i + length u) w)"
      by blast
  next
    assume "\<exists>u w. cs = u @ w \<and> u \<noteq> [] \<and> list_all (accepts a) u \<and> x \<in> set (runs r (i + length u) w)"
    then obtain u w where uw: "cs = u @ w" "u \<noteq> []" "list_all (accepts a) u" "x \<in> set (runs r (i + length u) w)"
      by blast
    then obtain d u' where u: "u = d # u'" by (cases u) auto
    with uw Cons have "d = c" "cs' = u' @ w" "accepts a c" "list_all (accepts a) u'" "x \<in> set (runs r (Suc i + length u') w)"
      by simp_all
    then have "accepts a c" "x \<in> set (runs (Star a # r) (Suc i) cs')"
      unfolding runs_Star_iff by blast+
    with Cons show "x \<in> set (runs (Plus a # r) i cs)" by simp
  qed
qed

lemma runs_Star_greedy:
  "list_all (accepts a) u \<Longrightarrow> w = [] \<or> \<not> accepts a (hd w) \<Longrightarrow>
     \<exists>X. runs (Star a # r) i (u @ w) = runs r (i + length u) w @ X"
proof (induction u arbitrary: i)
  case Nil
  then show ?case by (cases w) auto
next
  case (Cons c u)
  then obtain X where "runs (Star a # r) (Suc i) (u @ w) = runs r (Suc i + length u) w @ X"
    by fastforce
  with Cons.prems show ?case by simp
qed

lemma matchAt_Bol_later: "matchAt (Regex (Bol # a) g b) (Suc i) cs = []"
  by simp

lemma exec_Bol_later: "exec (Regex (Bol # a) g b) (Suc i) cs = None"
  by (induction cs arbitrary: i) simp_all

lemma String_match_anchored:
  "String_match s (Regex (Bol # a) g b) =
     (case matchAt (Regex (Bol # a) g b) 0 s of m # _ \<Rightarrow> Some m | [] \<Rightarrow> None)"
proof (cases s)
  case Nil
  then show ?thesis by (simp add: String_match_def)
next
  case (Cons c cs)
  have "exec (Regex (Bol # a) g b) 0 (c # cs) =
     (case matchAt (Regex (Bol # a) g b) 0 (c # cs) of m # _ \<Rightarrow> Some m
      | [] \<Rightarrow> exec (Regex (Bol # a) g b) (Suc 0) cs)"
    by (rule exec.simps)
  then show ?thesis
    unfolding String_match_def Cons exec_Bol_later .
qed

lemma String_match_Some_mem:
  "String_match s (Regex (Bol # a) g b) = Some m \<Longrightarrow> m \<in> set (matchAt (Regex (Bol # a) g b) 0 s)"
  unfolding String_match_anchored
  by (cases "matchAt (Regex (Bol # a) g b) 0 s") (simp_all del: matchAt.simps)

lemma String_match_None_iff:
  "String_match s (Regex (Bol # a) g b) = None \<longleftrightarrow> matchAt (Regex (Bol # a) g b) 0 s = []"
  unfolding String_match_anchored
  by (cases "matchAt (Regex (Bol # a) g b) 0 s") (simp_all del: matchAt.simps)

lemma matchAt_mem_iff:
  "m \<in> set (matchAt (Regex a g b) i cs) \<longleftrightarrow>
     (\<exists>i1 r1 i2 r2 i3 r3.
        (i1, r1) \<in> set (runs a i cs) \<and> (i2, r2) \<in> set (runs g i1 r1) \<and>
        (i3, r3) \<in> set (runs b i2 r2) \<and>
        m = \<lparr> whole = take (i3 - i) cs, group1 = take (i2 - i1) r1 \<rparr>)"
  by fastforce

lemma runs_Nil_iff: "x \<in> set (runs [] i cs) \<longleftrightarrow> x = (i, cs)"
  by simp

lemma runs_Eol_iff: "x \<in> set (runs (Eol # r) i cs) \<longleftrightarrow> cs = [] \<and> x \<in> set (runs r i [])"
  by auto

lemma runs_Bol_iff: "x \<in> set (runs (Bol # r) i cs) \<longleftrightarrow> i = 0 \<and> x \<in> set (runs r 0 cs)"
  by auto

lemmas runs_iffs = runs_Nil_iff runs_Eol_iff runs_Bol_iff runs_One_iff runs_Star_iff runs_Plus_iff

lemma versioned_mem:
  "m \<in> set (matchAt (Regex [Bol, Star Dot, One (Lit h)] [One (Lit v), Plus Digit, Star (NotLit h)] [Eol]) 0 k) \<longleftrightarrow>
   (\<exists>pre ds q. k = pre @ h # v # ds @ q \<and> list_all (accepts Dot) pre \<and> ds \<noteq> [] \<and>
      list_all (accepts Digit) ds \<and> list_all (accepts (NotLit h)) q \<and> m = \<lparr> whole = k, group1 = v # ds @ q \<rparr>)"
  (is "?L \<longleftrightarrow> ?R")
proof
  assume ?R
  then obtain pre ds q where *: "k = pre @ h # v # ds @ q" "list_all (accepts Dot) pre" "ds \<noteq> []"
      "list_all (accepts Digit) ds" "list_all (accepts (NotLit h)) q" "m = \<lparr> whole = k, group1 = v # ds @ q \<rparr>"
    by blast
  let ?i1 = "Suc (length pre)" and ?i2 = "Suc (length pre) + Suc (length ds + length q)"
  have "k = pre @ (h # v # ds @ q) \<and> list_all (accepts Dot) pre \<and>
        (?i1, v # ds @ q) \<in> set (runs [One (Lit h)] (0 + length pre) (h # v # ds @ q))"
    using * by simp
  then have a: "(?i1, v # ds @ q) \<in> set (runs [Bol, Star Dot, One (Lit h)] 0 k)"
    unfolding runs_Bol_iff runs_Star_iff by blast
  have "q = q @ [] \<and> list_all (accepts (NotLit h)) q \<and>
        (?i2, []) \<in> set (runs [] (Suc ?i1 + length ds + length q) [])"
    using * by simp
  then have "(?i2, []) \<in> set (runs [Star (NotLit h)] (Suc ?i1 + length ds) q)"
    unfolding runs_Star_iff by blast
  with * have "ds @ q = ds @ q \<and> ds \<noteq> [] \<and> list_all (accepts Digit) ds \<and>
        (?i2, []) \<in> set (runs [Star (NotLit h)] (Suc ?i1 + length ds) q)"
    by simp
  then have "(?i2, []) \<in> set (runs [Plus Digit, Star (NotLit h)] (Suc ?i1) (ds @ q))"
    unfolding runs_Plus_iff by blast
  then have b: "(?i2, []) \<in> set (runs [One (Lit v), Plus Digit, Star (NotLit h)] ?i1 (v # ds @ q))"
    by simp
  have c: "(?i2, []) \<in> set (runs [Eol] ?i2 [])"
    by simp
  have "m = \<lparr> whole = take (?i2 - 0) k, group1 = take (?i2 - ?i1) (v # ds @ q) \<rparr>"
    using * by simp
  with a b c show ?L
    unfolding matchAt_mem_iff by blast
next
  assume ?L
  then obtain i1 r1 i2 r2 i3 r3 where
    a: "(i1, r1) \<in> set (runs [Bol, Star Dot, One (Lit h)] 0 k)" and
    b: "(i2, r2) \<in> set (runs [One (Lit v), Plus Digit, Star (NotLit h)] i1 r1)" and
    c: "(i3, r3) \<in> set (runs [Eol] i2 r2)" and
    m: "m = \<lparr> whole = take (i3 - 0) k, group1 = take (i2 - i1) r1 \<rparr>"
    unfolding matchAt_mem_iff by blast
  from a obtain pre where pre: "k = pre @ h # r1" "list_all (accepts Dot) pre" "i1 = Suc (length pre)"
    unfolding runs_iffs by auto
  from b obtain ds q where dsq: "r1 = v # ds @ q @ r2" "ds \<noteq> []" "list_all (accepts Digit) ds"
      "list_all (accepts (NotLit h)) q" "i2 = Suc i1 + length ds + length q"
    unfolding runs_iffs by auto
  from c have r2: "r2 = []" "i3 = i2"
    by (auto split: if_splits)
  from pre dsq r2 m have "k = pre @ h # v # ds @ q \<and> list_all (accepts Dot) pre \<and> ds \<noteq> [] \<and>
      list_all (accepts Digit) ds \<and> list_all (accepts (NotLit h)) q \<and> m = \<lparr> whole = k, group1 = v # ds @ q \<rparr>"
    by simp
  then show ?R by blast
qed

lemma version_mem:
  "m \<in> set (matchAt (Regex [Bol, One (Lit v), Plus Digit] [Star Dot] [Eol]) 0 g) \<longleftrightarrow>
   (\<exists>ds q. g = v # ds @ q \<and> ds \<noteq> [] \<and> list_all (accepts Digit) ds \<and>
      list_all (accepts Dot) q \<and> m = \<lparr> whole = g, group1 = q \<rparr>)"
  (is "?L \<longleftrightarrow> ?R")
proof
  assume ?R
  then obtain ds q where *: "g = v # ds @ q" "ds \<noteq> []" "list_all (accepts Digit) ds"
      "list_all (accepts Dot) q" "m = \<lparr> whole = g, group1 = q \<rparr>"
    by blast
  let ?i1 = "Suc (length ds)" and ?i2 = "Suc (length ds) + length q"
  have "ds @ q = ds @ q \<and> ds \<noteq> [] \<and> list_all (accepts Digit) ds \<and>
        (?i1, q) \<in> set (runs [] (Suc 0 + length ds) q)"
    using * by simp
  then have "(?i1, q) \<in> set (runs [Plus Digit] (Suc 0) (ds @ q))"
    unfolding runs_Plus_iff by blast
  with * have a: "(?i1, q) \<in> set (runs [Bol, One (Lit v), Plus Digit] 0 g)"
    by simp
  have "q = q @ [] \<and> list_all (accepts Dot) q \<and> (?i2, []) \<in> set (runs [] (?i1 + length q) [])"
    using * by simp
  then have b: "(?i2, []) \<in> set (runs [Star Dot] ?i1 q)"
    unfolding runs_Star_iff by blast
  have c: "(?i2, []) \<in> set (runs [Eol] ?i2 [])"
    by simp
  have "m = \<lparr> whole = take (?i2 - 0) g, group1 = take (?i2 - ?i1) q \<rparr>"
    using * by simp
  with a b c show ?L
    unfolding matchAt_mem_iff by blast
next
  assume ?L
  then obtain i1 r1 i2 r2 i3 r3 where
    a: "(i1, r1) \<in> set (runs [Bol, One (Lit v), Plus Digit] 0 g)" and
    b: "(i2, r2) \<in> set (runs [Star Dot] i1 r1)" and
    c: "(i3, r3) \<in> set (runs [Eol] i2 r2)" and
    m: "m = \<lparr> whole = take (i3 - 0) g, group1 = take (i2 - i1) r1 \<rparr>"
    unfolding matchAt_mem_iff by blast
  from a obtain ds where ds: "g = v # ds @ r1" "ds \<noteq> []" "list_all (accepts Digit) ds" "i1 = Suc (length ds)"
    unfolding runs_iffs by auto
  from b obtain q where q: "r1 = q @ r2" "list_all (accepts Dot) q" "i2 = i1 + length q"
    unfolding runs_iffs by auto
  from c have r2: "r2 = []" "i3 = i2"
    by (auto split: if_splits)
  from ds q r2 m have "g = v # ds @ q \<and> ds \<noteq> [] \<and> list_all (accepts Digit) ds \<and>
      list_all (accepts Dot) q \<and> m = \<lparr> whole = g, group1 = q \<rparr>"
    by simp
  then show ?R by blast
qed

lemma version_first:
  assumes "ds \<noteq> []" "list_all (accepts Digit) ds" "q = [] \<or> \<not> accepts Digit (hd q)"
    "list_all (accepts Dot) q"
  shows "String_match (v # ds @ q) (Regex [Bol, One (Lit v), Plus Digit] [Star Dot] [Eol])
           = Some \<lparr> whole = v # ds @ q, group1 = q \<rparr>"
proof -
  from assms(1) obtain d ds' where ds: "ds = d # ds'"
    by (cases ds) auto
  with assms(2) have d: "accepts Digit d" "list_all (accepts Digit) ds'"
    by simp_all
  obtain X where "runs [Star Digit] (Suc (Suc 0)) (ds' @ q) = runs [] (Suc (Suc 0) + length ds') q @ X"
    using runs_Star_greedy [OF d(2) assms(3)] by blast
  with d ds have A: "runs [Bol, One (Lit v), Plus Digit] 0 (v # ds @ q) = (Suc (length ds), q) # X"
    by simp
  have "[] = [] \<or> \<not> accepts Dot (hd ([] :: jsstring))"
    by simp
  from runs_Star_greedy [OF assms(4) this]
  obtain Y where "runs [Star Dot] (Suc (length ds)) (q @ []) = runs [] (Suc (length ds) + length q) [] @ Y"
    by blast
  then have B: "runs [Star Dot] (Suc (length ds)) q = (Suc (length ds) + length q, []) # Y"
    by simp
  have "\<exists>Z. matchAt (Regex [Bol, One (Lit v), Plus Digit] [Star Dot] [Eol]) 0 (v # ds @ q)
          = \<lparr> whole = v # ds @ q, group1 = q \<rparr> # Z"
    unfolding matchAt.simps A by (simp add: B)
  then show ?thesis
    unfolding String_match_anchored by (auto simp del: matchAt.simps)
qed

lemma digit_prefix_split:
  assumes "ds' @ q' = ds @ q" "list_all P ds'" "q = [] \<or> \<not> P (hd q)"
  shows "\<exists>t. q' = t @ q"
proof -
  from assms(1) obtain us where "(ds' = ds @ us \<and> us @ q' = q) \<or> (ds' @ us = ds \<and> q' = us @ q)"
    unfolding append_eq_append_conv2 by blast
  then show ?thesis
  proof
    assume *: "ds' = ds @ us \<and> us @ q' = q"
    show ?thesis
    proof (cases us)
      case Nil
      with * show ?thesis by simp
    next
      case (Cons u us')
      with * have "P u" "q \<noteq> []" "hd q = u"
        using assms(2) by auto
      with assms(3) show ?thesis by simp
    qed
  next
    assume "ds' @ us = ds \<and> q' = us @ q"
    then show ?thesis by blast
  qed
qed

lemma version_none:
  assumes "q = [] \<or> \<not> accepts Digit (hd q)" "\<not> list_all (accepts Dot) q"
  shows "String_match (v # ds @ q) (Regex [Bol, One (Lit v), Plus Digit] [Star Dot] [Eol]) = None"
proof -
  have "m \<notin> set (matchAt (Regex [Bol, One (Lit v), Plus Digit] [Star Dot] [Eol]) 0 (v # ds @ q))" for m
  proof
    assume "m \<in> set (matchAt (Regex [Bol, One (Lit v), Plus Digit] [Star Dot] [Eol]) 0 (v # ds @ q))"
    then obtain ds' q' where *: "v # ds @ q = v # ds' @ q'" "list_all (accepts Digit) ds'"
        "list_all (accepts Dot) q'"
      unfolding version_mem by blast
    then have "ds' @ q' = ds @ q" by simp
    from digit_prefix_split [OF this *(2) assms(1)] obtain t where "q' = t @ q"
      by blast
    with *(3) assms(2) show False by simp
  qed
  then have "matchAt (Regex [Bol, One (Lit v), Plus Digit] [Star Dot] [Eol]) 0 (v # ds @ q) = []"
    by (meson last_in_set)
  then show ?thesis
    unfolding String_match_None_iff .
qed

lemma accepts_Dot_eq: "accepts Dot = (\<lambda>c. \<not> lineTerminator c)"
  by (rule ext) simp

lemma accepts_Digit_eq: "accepts Digit = isDigit"
  by (rule ext) simp

lemma list_all_NotLit: "list_all (accepts (NotLit h)) q \<longleftrightarrow> h \<notin> set q"
  by (induction q) auto

lemma last_hyphen_unique:
  assumes "pre @ h # g = pre' @ h # g'" "h \<notin> set g" "h \<notin> set g'"
  shows "g = g'"
proof -
  have a: "takeWhile (\<lambda>c. c \<noteq> h) (rev (pre @ h # g)) = rev g"
    using assms(2) by (auto simp: takeWhile_tail takeWhile_eq_all_conv)
  have b: "takeWhile (\<lambda>c. c \<noteq> h) (rev (pre' @ h # g')) = rev g'"
    using assms(3) by (auto simp: takeWhile_tail takeWhile_eq_all_conv)
  from a b have "rev g = rev g'"
    unfolding assms(1) by simp
  then show ?thesis by simp
qed

lemma versioned_match:
  assumes k: "k = pre @ h # v # ds @ q" and pre: "list_all (accepts Dot) pre"
    and ds: "ds \<noteq> []" "list_all (accepts Digit) ds" and q: "h \<notin> set q"
    and hv: "v \<noteq> h" "\<not> accepts Digit h"
  shows "String_match k (Regex [Bol, Star Dot, One (Lit h)] [One (Lit v), Plus Digit, Star (NotLit h)] [Eol])
           = Some \<lparr> whole = k, group1 = v # ds @ q \<rparr>"
proof -
  let ?re = "Regex [Bol, Star Dot, One (Lit h)] [One (Lit v), Plus Digit, Star (NotLit h)] [Eol]"
  have g: "h \<notin> set (v # ds @ q)"
    using ds(2) q hv by (auto simp: list_all_iff)
  have "\<lparr> whole = k, group1 = v # ds @ q \<rparr> \<in> set (matchAt ?re 0 k)"
    unfolding versioned_mem list_all_NotLit using k pre ds q by blast
  then have "matchAt ?re 0 k \<noteq> []"
    by (auto simp del: matchAt.simps)
  then obtain m where m: "String_match k ?re = Some m"
    unfolding String_match_anchored by (cases "matchAt ?re 0 k") (simp_all del: matchAt.simps)
  then have "m \<in> set (matchAt ?re 0 k)"
    by (rule String_match_Some_mem)
  then obtain pre' ds' q' where *: "k = pre' @ h # v # ds' @ q'" "list_all (accepts Digit) ds'"
      "h \<notin> set q'" "m = \<lparr> whole = k, group1 = v # ds' @ q' \<rparr>"
    unfolding versioned_mem list_all_NotLit by blast
  have "h \<notin> set (v # ds' @ q')"
    using * hv by (auto simp: list_all_iff)
  with k *(1) g have "v # ds @ q = v # ds' @ q'"
    using last_hyphen_unique [of pre h "v # ds @ q" pre' "v # ds' @ q'"] by simp
  with m * show ?thesis by simp
qed

lemma versioned_match_shape:
  assumes "String_match k (Regex [Bol, Star Dot, One (Lit h)] [One (Lit v), Plus Digit, Star (NotLit h)] [Eol]) = Some m"
  shows "\<exists>pre ds q. k = pre @ h # v # ds @ q \<and> list_all (accepts Dot) pre \<and> ds \<noteq> [] \<and>
      list_all (accepts Digit) ds \<and> h \<notin> set q \<and> group1 m = v # ds @ q"
proof -
  from assms have "m \<in> set (matchAt (Regex [Bol, Star Dot, One (Lit h)] [One (Lit v), Plus Digit, Star (NotLit h)] [Eol]) 0 k)"
    by (rule String_match_Some_mem)
  then obtain pre ds q where "k = pre @ h # v # ds @ q \<and> list_all (accepts Dot) pre \<and> ds \<noteq> [] \<and>
      list_all (accepts Digit) ds \<and> h \<notin> set q \<and> m = \<lparr> whole = k, group1 = v # ds @ q \<rparr>"
    unfolding versioned_mem list_all_NotLit by blast
  then have "k = pre @ h # v # ds @ q \<and> list_all (accepts Dot) pre \<and> ds \<noteq> [] \<and>
      list_all (accepts Digit) ds \<and> h \<notin> set q \<and> group1 m = v # ds @ q"
    by simp
  then show ?thesis by blast
qed

lemma hyphen_v_facts:
  "(of_char CHR ''v'' :: code_unit) \<noteq> of_char CHR ''-''" "\<not> accepts Digit (of_char CHR ''-'')"
  by (simp_all add: isDigit_def)

text \<open>
  The classification: the part of the key after its last hyphen is the group of the
  first pattern; the second pattern then splits it into the longest run of digits and
  the qualifier, and refuses a qualifier with a line terminator.
\<close>

lemma isStableArtifact_False_iff:
  "isStableArtifact k = False \<longleftrightarrow>
     (\<exists>base ds q. k = base @ [of_char CHR ''-'', of_char CHR ''v''] @ ds @ q
        \<and> list_all (\<lambda>c. \<not> lineTerminator c) base
        \<and> ds \<noteq> [] \<and> list_all isDigit ds
        \<and> q \<noteq> [] \<and> \<not> isDigit (hd q) \<and> of_char CHR ''-'' \<notin> set q
        \<and> list_all (\<lambda>c. \<not> lineTerminator c) q)"
  (is "?L \<longleftrightarrow> ?R")
proof
  assume ?R
  then obtain base ds q where *: "k = base @ of_char CHR ''-'' # of_char CHR ''v'' # ds @ q"
      "list_all (accepts Dot) base" "ds \<noteq> []" "list_all (accepts Digit) ds"
      "q \<noteq> []" "\<not> accepts Digit (hd q)" "of_char CHR ''-'' \<notin> set q" "list_all (accepts Dot) q"
    unfolding accepts_Dot_eq accepts_Digit_eq by auto
  have 1: "String_match k VERSIONED_ARTIFACT_REGEX = Some \<lparr> whole = k, group1 = of_char CHR ''v'' # ds @ q \<rparr>"
    unfolding VERSIONED_ARTIFACT_REGEX_def
    by (rule versioned_match [OF *(1) *(2) *(3) *(4) *(7) hyphen_v_facts])
  have 2: "String_match (of_char CHR ''v'' # ds @ q) VERSION_REGEX
             = Some \<lparr> whole = of_char CHR ''v'' # ds @ q, group1 = q \<rparr>"
    unfolding VERSION_REGEX_def
    using * by (intro version_first) simp_all
  show ?L
    unfolding isStableArtifact_def 1 using 2 *(5) by simp
next
  assume ?L
  then obtain m vm where m: "String_match k VERSIONED_ARTIFACT_REGEX = Some m"
    and vm: "String_match (group1 m) VERSION_REGEX = Some vm" and nonempty: "group1 vm \<noteq> []"
    unfolding isStableArtifact_def by (auto split: option.splits if_splits)
  from m obtain pre ds0 q0 where
    s: "k = pre @ of_char CHR ''-'' # of_char CHR ''v'' # ds0 @ q0" "list_all (accepts Dot) pre"
       "ds0 \<noteq> []" "list_all (accepts Digit) ds0" "of_char CHR ''-'' \<notin> set q0"
       "group1 m = of_char CHR ''v'' # ds0 @ q0"
    unfolding VERSIONED_ARTIFACT_REGEX_def using versioned_match_shape by blast
  define ds where "ds = ds0 @ takeWhile (accepts Digit) q0"
  define q where "q = dropWhile (accepts Digit) q0"
  have g: "group1 m = of_char CHR ''v'' # ds @ q"
    using s(6) by (simp add: ds_def q_def)
  have ds: "ds \<noteq> []" "list_all (accepts Digit) ds"
    using s(3,4) by (auto simp: ds_def list_all_iff dest: set_takeWhileD)
  have q: "q = [] \<or> \<not> accepts Digit (hd q)"
    unfolding q_def using hd_dropWhile [of "accepts Digit" q0] by blast
  have dot: "list_all (accepts Dot) q"
  proof (rule ccontr)
    assume "\<not> list_all (accepts Dot) q"
    with q have "String_match (of_char CHR ''v'' # ds @ q) VERSION_REGEX = None"
      unfolding VERSION_REGEX_def by (rule version_none)
    with vm g show False by simp
  qed
  have "String_match (of_char CHR ''v'' # ds @ q) VERSION_REGEX
          = Some \<lparr> whole = of_char CHR ''v'' # ds @ q, group1 = q \<rparr>"
    unfolding VERSION_REGEX_def using ds q dot by (rule version_first)
  with vm g nonempty have qne: "q \<noteq> []"
    by auto
  have "of_char CHR ''-'' \<notin> set q"
    using s(5) unfolding q_def by (auto dest: set_dropWhileD)
  moreover have "k = pre @ of_char CHR ''-'' # of_char CHR ''v'' # ds @ q"
    using s(1) by (simp add: ds_def q_def)
  ultimately have "k = pre @ [of_char CHR ''-'', of_char CHR ''v''] @ ds @ q
        \<and> list_all (\<lambda>c. \<not> lineTerminator c) pre
        \<and> ds \<noteq> [] \<and> list_all isDigit ds
        \<and> q \<noteq> [] \<and> \<not> isDigit (hd q) \<and> of_char CHR ''-'' \<notin> set q
        \<and> list_all (\<lambda>c. \<not> lineTerminator c) q"
    using s(2) ds q qne dot by (simp add: accepts_Dot_eq accepts_Digit_eq)
  then show ?R by blast
qed

lemma isStableArtifact_empty_qualifier:
  assumes "ds \<noteq> []" "list_all isDigit ds"
  shows "isStableArtifact (base @ [of_char CHR ''-'', of_char CHR ''v''] @ ds)"
proof (rule ccontr)
  assume "\<not> isStableArtifact (base @ [of_char CHR ''-'', of_char CHR ''v''] @ ds)"
  then have "isStableArtifact (base @ [of_char CHR ''-'', of_char CHR ''v''] @ ds) = False"
    by simp
  then obtain base' ds' q where *:
      "base @ [of_char CHR ''-'', of_char CHR ''v''] @ ds = base' @ [of_char CHR ''-'', of_char CHR ''v''] @ ds' @ q"
      "list_all isDigit ds'" "q \<noteq> []" "\<not> isDigit (hd q)" "of_char CHR ''-'' \<notin> set q"
    unfolding isStableArtifact_False_iff by blast
  have 1: "of_char CHR ''-'' \<notin> set (of_char CHR ''v'' # ds)"
    using assms(2) hyphen_v_facts by (auto simp: list_all_iff)
  have 2: "of_char CHR ''-'' \<notin> set (of_char CHR ''v'' # ds' @ q)"
    using *(2,5) hyphen_v_facts by (auto simp: list_all_iff)
  from *(1) have "base @ of_char CHR ''-'' # (of_char CHR ''v'' # ds)
      = base' @ of_char CHR ''-'' # (of_char CHR ''v'' # ds' @ q)"
    by simp
  from last_hyphen_unique [OF this 1 2] have "ds = ds' @ q"
    by simp
  with *(3) have "hd q \<in> set ds"
    by simp
  with assms(2) *(4) show False
    by (simp add: list_all_iff)
qed

text \<open>The definitions a concrete key is evaluated with.\<close>

lemmas isStableArtifact_eval =
  isStableArtifact_def String_match_def VERSIONED_ARTIFACT_REGEX_def VERSION_REGEX_def
  js_def lineTerminator_def isDigit_def

subsection \<open>Stability classification\<close>

lemma isStableArtifact_last_segment:
  assumes "of_char CHR ''-'' \<notin> set t"
    and "\<not> (\<exists>d r. t = of_char CHR ''v'' # d # r \<and> isDigit d)"
  shows "isStableArtifact (pre @ [of_char CHR ''-''] @ t)"
proof (rule ccontr)
  assume "\<not> isStableArtifact (pre @ [of_char CHR ''-''] @ t)"
  then have "isStableArtifact (pre @ [of_char CHR ''-''] @ t) = False"
    by simp
  then obtain base ds q where *:
      "pre @ [of_char CHR ''-''] @ t = base @ [of_char CHR ''-'', of_char CHR ''v''] @ ds @ q"
      "ds \<noteq> []" "list_all isDigit ds" "of_char CHR ''-'' \<notin> set q"
    unfolding isStableArtifact_False_iff by blast
  have 1: "of_char CHR ''-'' \<notin> set (of_char CHR ''v'' # ds @ q)"
    using *(3,4) hyphen_v_facts by (auto simp: list_all_iff)
  from *(1) have "pre @ of_char CHR ''-'' # t
      = base @ of_char CHR ''-'' # (of_char CHR ''v'' # ds @ q)"
    by simp
  from last_hyphen_unique [OF this assms(1) 1] have t: "t = of_char CHR ''v'' # ds @ q" .
  from *(2) obtain d ds' where "ds = d # ds'"
    by (cases ds) auto
  with t *(3) have "t = of_char CHR ''v'' # d # (ds' @ q) \<and> isDigit d"
    by simp
  with assms(2) show False by blast
qed

lemma isStableArtifact_no_hyphen:
  assumes "of_char CHR ''-'' \<notin> set k"
  shows "isStableArtifact k"
proof (rule ccontr)
  assume "\<not> isStableArtifact k"
  then have "isStableArtifact k = False"
    by simp
  then obtain base ds q where
      "k = base @ [of_char CHR ''-'', of_char CHR ''v''] @ ds @ q"
    unfolding isStableArtifact_False_iff by blast
  with assms show False by simp
qed

text \<open>
  C4. A key of the registry is taken from one line of versions.txt, so it holds no
  line terminator. For such a key \<open>isStableArtifact\<close> is false exactly when the key
  is a base, "-v", a run of digits and a qualifier that is not empty and has no hyphen
  (the run of digits is the whole number: the qualifier does not begin with a digit).
  It is true when the qualifier is empty; true when the key has no hyphen, or the part
  after its last hyphen does not begin with "v" and a digit, which is the case of a key
  without such a suffix and of a would-be qualifier with a hyphen, as in "core-v2-beta".
  The four keys of the specification get the values it lists: "core", "core-v2" and
  "core-v2-beta" are stable, "core-v2beta" is not.
\<close>

theorem isStableArtifact_classifies:
  "(list_all (\<lambda>c. \<not> lineTerminator c) k \<longrightarrow>
      (isStableArtifact k = False \<longleftrightarrow>
         (\<exists>base ds q. k = base @ [of_char CHR ''-'', of_char CHR ''v''] @ ds @ q
            \<and> ds \<noteq> [] \<and> list_all isDigit ds
            \<and> q \<noteq> [] \<and> \<not> isDigit (hd q) \<and> of_char CHR ''-'' \<notin> set q)))
   \<and> (ds' \<noteq> [] \<and> list_all isDigit ds' \<longrightarrow>
        isStableArtifact (base' @ [of_char CHR ''-'', of_char CHR ''v''] @ ds') = True)
   \<and> (of_char CHR ''-'' \<notin> set k' \<longrightarrow> isStableArtifact k' = True)
   \<and> (of_char CHR ''-'' \<notin> set t
        \<and> \<not> (\<exists>d r. t = of_char CHR ''v'' # d # r \<and> isDigit d) \<longrightarrow>
        isStableArtifact (pre @ [of_char CHR ''-''] @ t) = True)
   \<and> isStableArtifact (js ''core'') = True
   \<and> isStableArtifact (js ''core-v2'') = True
   \<and> isStableArtifact (js ''core-v2beta'') = False
   \<and> isStableArtifact (js ''core-v2-beta'') = True"
proof -
  have iff: "isStableArtifact k = False \<longleftrightarrow>
         (\<exists>base ds q. k = base @ [of_char CHR ''-'', of_char CHR ''v''] @ ds @ q
            \<and> ds \<noteq> [] \<and> list_all isDigit ds
            \<and> q \<noteq> [] \<and> \<not> isDigit (hd q) \<and> of_char CHR ''-'' \<notin> set q)"
    if k: "list_all (\<lambda>c. \<not> lineTerminator c) k"
  proof
    assume "isStableArtifact k = False"
    then show "\<exists>base ds q. k = base @ [of_char CHR ''-'', of_char CHR ''v''] @ ds @ q
            \<and> ds \<noteq> [] \<and> list_all isDigit ds
            \<and> q \<noteq> [] \<and> \<not> isDigit (hd q) \<and> of_char CHR ''-'' \<notin> set q"
      unfolding isStableArtifact_False_iff by blast
  next
    assume "\<exists>base ds q. k = base @ [of_char CHR ''-'', of_char CHR ''v''] @ ds @ q
            \<and> ds \<noteq> [] \<and> list_all isDigit ds
            \<and> q \<noteq> [] \<and> \<not> isDigit (hd q) \<and> of_char CHR ''-'' \<notin> set q"
    then obtain base ds q where *: "k = base @ [of_char CHR ''-'', of_char CHR ''v''] @ ds @ q"
        "ds \<noteq> []" "list_all isDigit ds" "q \<noteq> []" "\<not> isDigit (hd q)" "of_char CHR ''-'' \<notin> set q"
      by blast
    from k *(1) have "list_all (\<lambda>c. \<not> lineTerminator c) base"
        "list_all (\<lambda>c. \<not> lineTerminator c) q"
      by simp_all
    with * show "isStableArtifact k = False"
      unfolding isStableArtifact_False_iff by blast
  qed
  have "isStableArtifact (js ''core'')"
    by (simp add: isStableArtifact_eval)
  moreover have "isStableArtifact (js ''core-v2'')"
    by (simp add: isStableArtifact_eval)
  moreover have "\<not> isStableArtifact (js ''core-v2beta'')"
    by (simp add: isStableArtifact_eval)
  moreover have "isStableArtifact (js ''core-v2-beta'')"
    by (simp add: isStableArtifact_eval)
  ultimately show ?thesis
    using iff isStableArtifact_empty_qualifier [of ds' base']
      isStableArtifact_no_hyphen [of k'] isStableArtifact_last_segment [of t pre]
    by simp
qed

text \<open>
  C4 at the key "lib-v12rc" (base "lib", digits "12", qualifier "rc"), at "lib-v12" with
  the empty qualifier, at "lib" without a hyphen and at "lib-v12-rc", where "rc"
  follows the last hyphen.
\<close>

theorem isStableArtifact_classifies_witness:
  "isStableArtifact (js ''lib-v12rc'') = False
   \<and> isStableArtifact (js ''lib'' @ [of_char CHR ''-'', of_char CHR ''v''] @ js ''12'') = True
   \<and> isStableArtifact (js ''lib'') = True
   \<and> isStableArtifact (js ''lib-v12'' @ [of_char CHR ''-''] @ js ''rc'') = True"
proof -
  note t = isStableArtifact_classifies
    [where k = "js ''lib-v12rc''" and ds' = "js ''12''" and base' = "js ''lib''"
       and k' = "js ''lib''" and t = "js ''rc''" and pre = "js ''lib-v12''"]
  have 1: "list_all (\<lambda>c. \<not> lineTerminator c) (js ''lib-v12rc'')"
    by (simp add: js_def lineTerminator_def)
  have "js ''lib-v12rc'' = js ''lib'' @ [of_char CHR ''-'', of_char CHR ''v''] @ js ''12'' @ js ''rc''
        \<and> js ''12'' \<noteq> [] \<and> list_all isDigit (js ''12'')
        \<and> js ''rc'' \<noteq> [] \<and> \<not> isDigit (hd (js ''rc'')) \<and> of_char CHR ''-'' \<notin> set (js ''rc'')"
    by (simp add: js_def isDigit_def)
  then have 2: "\<exists>base ds q. js ''lib-v12rc'' = base @ [of_char CHR ''-'', of_char CHR ''v''] @ ds @ q
        \<and> ds \<noteq> [] \<and> list_all isDigit ds
        \<and> q \<noteq> [] \<and> \<not> isDigit (hd q) \<and> of_char CHR ''-'' \<notin> set q"
    by blast
  have 3: "js ''12'' \<noteq> [] \<and> list_all isDigit (js ''12'')"
    by (simp add: js_def isDigit_def)
  have 4: "of_char CHR ''-'' \<notin> set (js ''lib'')"
    by (simp add: js_def)
  have 5: "of_char CHR ''-'' \<notin> set (js ''rc'')
        \<and> \<not> (\<exists>d r. js ''rc'' = of_char CHR ''v'' # d # r \<and> isDigit d)"
    by (simp add: js_def)
  from t 1 2 have "isStableArtifact (js ''lib-v12rc'') = False"
    by blast
  moreover from t 3
  have "isStableArtifact (js ''lib'' @ [of_char CHR ''-'', of_char CHR ''v''] @ js ''12'') = True"
    by blast
  moreover from t 4 have "isStableArtifact (js ''lib'') = True"
    by blast
  moreover from t 5 have "isStableArtifact (js ''lib-v12'' @ [of_char CHR ''-''] @ js ''rc'') = True"
    by blast
  ultimately show ?thesis
    by blast
qed

subsection \<open>The version bump\<close>

text \<open>
  The map operations, and what the two loops of \<open>updateVersionsMap\<close> compute.
\<close>

lemma Map_get_Map_set: "Map_get (Map_set m k v) k' = (if k' = k then Some v else Map_get m k')"
  by (induction m) (auto simp: Map_get_def)

lemma Map_keys_Map_set: "Map_get m k = Some v \<Longrightarrow> Map_keys (Map_set m k v') = Map_keys m"
  by (induction m) (auto simp: Map_get_def Map_keys_def split: if_splits option.splits)

lemma Map_get_versionsMapOf:
  "k \<in> set (Map_keys (versionsMapOf M)) \<Longrightarrow> \<exists>v. Map_get (versionsMapOf M) k = Some v"
proof (induction M)
  case Nil
  then show ?case by (simp add: Map_keys_def versionsMapOf_def)
next
  case (Cons e M)
  obtain k' v' where e: "e = (k', v')" by (cases e)
  show ?case
  proof (cases "k' = k")
    case True
    with e show ?thesis by (simp add: Map_get_def versionsMapOf_def)
  next
    case False
    with e Cons.prems have "k \<in> set (Map_keys (versionsMapOf M))"
      by (simp add: Map_keys_def versionsMapOf_def)
    then obtain v where "Map_get (versionsMapOf M) k = Some v"
      using Cons.IH by blast
    with False e show ?thesis by (simp add: Map_get_def versionsMapOf_def)
  qed
qed

lemma filter_not_promotion:
  "\<not> isPromotionCommit commit \<Longrightarrow>
     commit\<lparr>notes' := filter (\<lambda>note. \<not> isPromotionNote note) (notes' commit)\<rparr> = commit"
proof -
  assume "\<not> isPromotionCommit commit"
  then have "filter (\<lambda>note. \<not> isPromotionNote note) (notes' commit) = notes' commit"
    by (simp add: isPromotionCommit_def list_ex_iff)
  then show ?thesis by simp
qed

lemma scanCommit_pair:
  "scanCommit commit (isPromotion, modifiedCommits) =
     (if isPromotionCommit commit
      then (True, modifiedCommits @
              [commit\<lparr>notes' := filter (\<lambda>note. \<not> isPromotionNote note) (notes' commit)\<rparr>])
      else (isPromotion, modifiedCommits @ [commit]))"
  by (simp add: scanCommit_def)

lemma fold_scanCommit:
  "fold scanCommit commits (isPromotion, modifiedCommits) =
     (isPromotion \<or> list_ex isPromotionCommit commits,
      modifiedCommits @ map (\<lambda>commit.
        commit\<lparr>notes' := filter (\<lambda>note. \<not> isPromotionNote note) (notes' commit)\<rparr>) commits)"
proof (induction commits arbitrary: isPromotion modifiedCommits)
  case Nil
  then show ?case by simp
next
  case (Cons c cs)
  show ?case
  proof (cases "isPromotionCommit c")
    case True
    then show ?thesis
      by (simp add: scanCommit_pair Cons.IH)
  next
    case False
    then show ?thesis
      by (simp add: scanCommit_pair Cons.IH filter_not_promotion)
  qed
qed

lemma bumpKey_keys: "Map_keys (fst (bumpKey P ip mc k s)) = Map_keys (fst s)"
  by (cases s) (auto simp: bumpKey_def Map_keys_Map_set Let_def split: option.splits)

lemma fold_bumpKey_keys: "Map_keys (fst (fold (bumpKey P ip mc) ks s)) = Map_keys (fst s)"
  by (induction ks arbitrary: s) (simp_all add: bumpKey_keys)

lemma bumpKey_other: "k' \<noteq> k \<Longrightarrow> Map_get (fst (bumpKey P ip mc k' s)) k = Map_get (fst s) k"
  by (cases s) (auto simp: bumpKey_def Map_get_Map_set Let_def split: option.splits)

lemma bumpKey_keeps_promoted:
  assumes "isStableArtifact k" "Map_get (fst s) k = Some (P (js ''1.0.0''))"
  shows "Map_get (fst (bumpKey P True mc k' s)) k = Some (P (js ''1.0.0''))"
  using assms
  by (cases s) (auto simp: bumpKey_def Map_get_Map_set Let_def split: option.splits)

lemma fold_bumpKey_keeps_promoted:
  assumes "isStableArtifact k" "Map_get (fst s) k = Some (P (js ''1.0.0''))"
  shows "Map_get (fst (fold (bumpKey P True mc) ks s)) k = Some (P (js ''1.0.0''))"
  using assms(2)
  by (induction ks arbitrary: s) (simp_all add: bumpKey_keeps_promoted [OF assms(1)])

lemma bumpKey_promotes:
  assumes "isStableArtifact k" "Map_get (fst s) k = Some v"
  shows "Map_get (fst (bumpKey P True mc k s)) k = Some (P (js ''1.0.0''))"
  using assms by (cases s) (simp add: bumpKey_def Map_get_Map_set)

lemma fold_bumpKey_promotes:
  assumes "isStableArtifact k"
  shows "k \<in> set ks \<Longrightarrow> Map_get (fst s) k = Some v \<Longrightarrow>
         Map_get (fst (fold (bumpKey P True mc) ks s)) k = Some (P (js ''1.0.0''))"
proof (induction ks arbitrary: s)
  case Nil
  then show ?case by simp
next
  case (Cons k' ks)
  show ?case
  proof (cases "k' = k")
    case True
    have "Map_get (fst (bumpKey P True mc k s)) k = Some (P (js ''1.0.0''))"
      using assms Cons.prems(2) by (rule bumpKey_promotes)
    then show ?thesis
      using True fold_bumpKey_keeps_promoted [OF assms] by simp
  next
    case False
    with Cons.prems have "k \<in> set ks" "Map_get (fst (bumpKey P True mc k' s)) k = Some v"
      by (simp_all add: bumpKey_other)
    then show ?thesis
      using Cons.IH by simp
  qed
qed

lemma updateVersionsMap_fold:
  "updateVersionsMap Version_parse this M conventionalCommits
     = fold (bumpKey Version_parse (list_ex isPromotionCommit conventionalCommits)
          (map (\<lambda>commit. commit\<lparr>notes' := filter (\<lambda>note. \<not> isPromotionNote note) (notes' commit)\<rparr>)
             conventionalCommits))
        (Map_keys M) (M, this)"
  by (simp add: updateVersionsMap_def fold_scanCommit)

text \<open>
  A step of the second loop never turns an entry with a version into one without, nor
  the other way round; it warns exactly when the key has no version.
\<close>

lemma bumpKey_None_iff:
  "Map_get (fst (bumpKey P ip mc k' s)) k = None \<longleftrightarrow> Map_get (fst s) k = None"
  by (cases s) (auto simp: bumpKey_def Map_get_Map_set Let_def split: option.splits)

lemma fold_bumpKey_None_iff:
  "Map_get (fst (fold (bumpKey P ip mc) ks s)) k = None \<longleftrightarrow> Map_get (fst s) k = None"
  by (induction ks arbitrary: s) (simp_all add: bumpKey_None_iff)

lemma bumpKey_warnings:
  "warnings (logger (snd (bumpKey P ip mc k s)))
     = warnings (logger (snd s))
       @ (if Map_get (fst s) k = None then [js ''didn't find version for '' @ k] else [])"
  by (cases s) (auto simp: bumpKey_def Let_def split: option.splits)

lemma fold_bumpKey_warnings:
  "warnings (logger (snd (fold (bumpKey P ip mc) ks s)))
     = warnings (logger (snd s))
       @ map (\<lambda>k. js ''didn't find version for '' @ k)
           (filter (\<lambda>k. Map_get (fst s) k = None) ks)"
proof (induction ks arbitrary: s)
  case Nil
  then show ?case by simp
next
  case (Cons k ks)
  have "warnings (logger (snd (fold (bumpKey P ip mc) (k # ks) s)))
      = warnings (logger (snd (bumpKey P ip mc k s)))
        @ map (\<lambda>k. js ''didn't find version for '' @ k)
            (filter (\<lambda>k'. Map_get (fst (bumpKey P ip mc k s)) k' = None) ks)"
    using Cons.IH [of "bumpKey P ip mc k s"] by simp
  then show ?case
    unfolding bumpKey_None_iff bumpKey_warnings by simp
qed



text \<open>
  C1. If some commit carries a note with title "RELEASE AS" and text "1.0.0", then after
  \<open>updateVersionsMap\<close> every key of the map that \<open>isStableArtifact\<close> classifies
  as stable has the version \<^verbatim>\<open>Version.parse('1.0.0')\<close>, whatever the other commits
  hold and whatever \<^verbatim>\<open>bump\<close> of the versioning strategy computes. The map is any
  \<^verbatim>\<open>Map<string, Version>\<close>: every entry holds a \<^verbatim>\<open>Version\<close>.
\<close>

theorem updateVersionsMap_promotion:
  assumes "\<exists>commit \<in> set conventionalCommits. \<exists>note \<in> set (notes' commit).
             title note = js ''RELEASE AS'' \<and> text' note = js ''1.0.0''"
    and "k \<in> set (Map_keys (versionsMapOf M))"
    and "isStableArtifact k"
  shows "Map_get (fst (updateVersionsMap Version_parse this (versionsMapOf M) conventionalCommits)) k
           = Some (Version_parse (js ''1.0.0''))"
proof -
  from assms(1) have "list_ex isPromotionCommit conventionalCommits"
    unfolding list_ex_iff isPromotionCommit_def isPromotionNote_def by blast
  moreover from assms(2) obtain v where "Map_get (versionsMapOf M) k = Some v"
    using Map_get_versionsMapOf by blast
  ultimately show ?thesis
    unfolding updateVersionsMap_fold
    using fold_bumpKey_promotes [OF assms(3) assms(2), of "(versionsMapOf M, this)" v]
    by simp
qed

text \<open>
  C1 on the example: one promotion commit, the stable key "core" goes to "1.0.0".
\<close>

theorem updateVersionsMap_promotion_witness:
  "Map_get (fst (updateVersionsMap (\<lambda>s. s) exampleStrategy
       (versionsMapOf [(js ''core'', js ''0.9.0''), (js ''core-v2beta'', js ''0.3.0'')])
       [exampleCommit]))
     (js ''core'') = Some (js ''1.0.0'')"
proof -
  have 1: "\<exists>commit \<in> set [exampleCommit]. \<exists>note \<in> set (notes' commit).
             title note = js ''RELEASE AS'' \<and> text' note = js ''1.0.0''"
    by (simp add: exampleCommit_def)
  have 2: "js ''core'' \<in> set (Map_keys
      (versionsMapOf [(js ''core'', js ''0.9.0''), (js ''core-v2beta'', js ''0.3.0'')]))"
    by (simp add: Map_keys_def versionsMapOf_def)
  have 3: "isStableArtifact (js ''core'')"
    by (simp add: isStableArtifact_eval)
  show ?thesis
    using updateVersionsMap_promotion
      [where Version_parse = "\<lambda>s. s" and this = exampleStrategy, OF 1 2 3]
    by simp
qed

text \<open>
  C2. The keys of the map that \<open>updateVersionsMap\<close> returns are the keys of the map
  it was given, in the same order: no key is added, none is removed. This holds for
  every map, also one with entries that hold no \<^verbatim>\<open>Version\<close>. Such a key is skipped:
  its entry still holds no \<^verbatim>\<open>Version\<close> afterwards, and the warnings logged are one
  for each such key, in the order of the keys. The function returns for every map: it
  has no failing branch.
\<close>

theorem updateVersionsMap_keeps_keys:
  "Map_keys (fst (updateVersionsMap Version_parse this M conventionalCommits)) = Map_keys M
   \<and> (Map_get (fst (updateVersionsMap Version_parse this M conventionalCommits)) k = None
        \<longleftrightarrow> Map_get M k = None)
   \<and> warnings (logger (snd (updateVersionsMap Version_parse this M conventionalCommits)))
       = warnings (logger this)
         @ map (\<lambda>k. js ''didn't find version for '' @ k)
             (filter (\<lambda>k. Map_get M k = None) (Map_keys M))"
  unfolding updateVersionsMap_fold
  by (simp add: fold_bumpKey_keys fold_bumpKey_None_iff fold_bumpKey_warnings)

text \<open>
  C2 on a map whose key "ghost" holds no version, with the promotion commit: the three
  keys stay, "ghost" still holds no version, "core" is promoted, "core-v2beta" is
  bumped, and the one warning is for "ghost".
\<close>

theorem updateVersionsMap_keeps_keys_witness:
  "fst (updateVersionsMap (\<lambda>s. s) exampleStrategy
       [(js ''core'', Some (js ''0.9.0'')), (js ''ghost'', None),
        (js ''core-v2beta'', Some (js ''0.3.0''))] [exampleCommit])
     = [(js ''core'', Some (js ''1.0.0'')), (js ''ghost'', None),
        (js ''core-v2beta'', Some (js ''0.3.0.1''))]
   \<and> warnings (logger (snd (updateVersionsMap (\<lambda>s. s) exampleStrategy
       [(js ''core'', Some (js ''0.9.0'')), (js ''ghost'', None),
        (js ''core-v2beta'', Some (js ''0.3.0''))] [exampleCommit])))
     = [js ''didn't find version for ghost'']"
  using updateVersionsMap_keeps_keys
    [where Version_parse = "\<lambda>s. s" and this = exampleStrategy
       and M = "[(js ''core'', Some (js ''0.9.0'')), (js ''ghost'', None),
                 (js ''core-v2beta'', Some (js ''0.3.0''))]"
       and conventionalCommits = "[exampleCommit]" and k = "js ''ghost''"]
  by (simp add: updateVersionsMap_def scanCommit_def bumpKey_def Map_keys_def Map_get_def
      isPromotionCommit_def isPromotionNote_def exampleCommit_def exampleStrategy_def
      isStableArtifact_eval)



subsection \<open>The versions registry\<close>

text \<open>
  C5. With nothing cached, a fetch that fails with \<^verbatim>\<open>FileNotFoundError\<close> makes
  \<open>getVersionsContent\<close> throw \<^verbatim>\<open>MissingRequiredFileError\<close> with the resolved path
  of versions.txt, the strategy name "JavaYoshi" and "owner/repo"; a fetch that fails
  with any other error makes it throw that error.
\<close>

theorem getVersionsContent_missing_file:
  assumes "versionsContent this = None"
  shows "(getFileContentsOnBranch (github this) (addPath this (js ''versions.txt'')) (targetBranch this)
            = Inl (FileNotFoundError p) \<longrightarrow>
          fst (getVersionsContent this)
            = Inl (MissingRequiredFileError (addPath this (js ''versions.txt'')) (js ''JavaYoshi'')
                     (owner (repository this) @ js ''/'' @ repo (repository this))))
       \<and> (getFileContentsOnBranch (github this) (addPath this (js ''versions.txt'')) (targetBranch this)
            = Inl err \<and> (\<forall>p. err \<noteq> FileNotFoundError p) \<longrightarrow>
          fst (getVersionsContent this) = Inl err)"
  using assms
  by (auto simp: getVersionsContent_def Let_def split: error.splits)

text \<open>
  C5 on the example: the registry of the module "kotlin" does not exist; and a backend
  that answers every fetch with another error.
\<close>

theorem getVersionsContent_missing_file_witness:
  "fst (getVersionsContent (exampleStrategy\<lparr>addPath := (\<lambda>file. js ''kotlin/'' @ file)\<rparr>))
     = Inl (MissingRequiredFileError (js ''kotlin/versions.txt'') (js ''JavaYoshi'')
              (js ''googleapis/java-lib''))
   \<and> fst (getVersionsContent (exampleStrategy\<lparr>github := exampleGitHub
          \<lparr>getFileContentsOnBranch := (\<lambda>path branch. Inl (OtherError (js ''HTTP 500'')))\<rparr>\<rparr>))
     = Inl (OtherError (js ''HTTP 500''))"
proof -
  let ?a = "exampleStrategy\<lparr>addPath := (\<lambda>file. js ''kotlin/'' @ file)\<rparr>"
  let ?b = "exampleStrategy\<lparr>github := exampleGitHub
          \<lparr>getFileContentsOnBranch := (\<lambda>path branch. Inl (OtherError (js ''HTTP 500'')))\<rparr>\<rparr>"
  have a: "versionsContent ?a = None" and b: "versionsContent ?b = None"
    by (simp_all add: exampleStrategy_def)
  have fa: "getFileContentsOnBranch (github ?a) (addPath ?a (js ''versions.txt'')) (targetBranch ?a)
              = Inl (FileNotFoundError (js ''kotlin/versions.txt''))"
    by (simp add: exampleStrategy_def exampleGitHub_def js_def)
  have fb: "getFileContentsOnBranch (github ?b) (addPath ?b (js ''versions.txt'')) (targetBranch ?b)
              = Inl (OtherError (js ''HTTP 500''))
            \<and> (\<forall>p. OtherError (js ''HTTP 500'') \<noteq> FileNotFoundError p)"
    by (simp add: exampleStrategy_def exampleGitHub_def)
  from getVersionsContent_missing_file [OF a, of "js ''kotlin/versions.txt''"] fa
  have "fst (getVersionsContent ?a)
     = Inl (MissingRequiredFileError (addPath ?a (js ''versions.txt'')) (js ''JavaYoshi'')
              (owner (repository ?a) @ js ''/'' @ repo (repository ?a)))"
    by blast
  moreover from getVersionsContent_missing_file [OF b, of _ "OtherError (js ''HTTP 500'')"] fb
  have "fst (getVersionsContent ?b) = Inl (OtherError (js ''HTTP 500''))"
    by blast
  ultimately show ?thesis
    by (simp add: exampleStrategy_def js_def)
qed

lemma getVersionsContent_cached:
  "versionsContent this = Some contents \<Longrightarrow> getVersionsContent this = (Inr contents, this)"
  by (simp add: getVersionsContent_def)

lemma getVersionsContent_times_cached:
  "versionsContent this = Some contents \<Longrightarrow>
     getVersionsContent_times n this = (replicate n (Inr contents), this)"
  by (induction n) (simp_all add: getVersionsContent_cached)

lemma getVersionsContent_Inr:
  assumes "getVersionsContent this = (Inr contents, this')"
  shows "versionsContent this' = Some contents"
    and "requests (github this') = requests (github this)
           @ (if versionsContent this = None
              then [(addPath this (js ''versions.txt''), targetBranch this)] else [])"
  using assms
  by (auto simp: getVersionsContent_def Let_def split: option.splits sum.splits error.splits)

text \<open>
  C6. When a call of \<open>getVersionsContent\<close> returns contents, they are cached; the
  call has asked the backend once if nothing was cached before and not at all
  otherwise; and each of any number of later calls on the instance returns the same
  contents and leaves the instance, with its list of requests, as it is.
\<close>

theorem getVersionsContent_memoized:
  assumes "getVersionsContent this = (Inr contents, this')"
  shows "versionsContent this' = Some contents
       \<and> requests (github this') = requests (github this)
           @ (if versionsContent this = None
              then [(addPath this (js ''versions.txt''), targetBranch this)] else [])
       \<and> getVersionsContent this' = (Inr contents, this')
       \<and> getVersionsContent_times n this' = (replicate n (Inr contents), this')"
  using getVersionsContent_Inr [OF assms]
  by (simp add: getVersionsContent_cached getVersionsContent_times_cached)

text \<open>
  C6 on the example: the first call fetches java/versions.txt on main, three more calls
  return the cached contents.
\<close>

theorem getVersionsContent_memoized_witness:
  "fst (getVersionsContent exampleStrategy) = Inr (js ''core:1.2.3:1.2.3'')
   \<and> requests (github (snd (getVersionsContent exampleStrategy)))
       = [(js ''java/versions.txt'', js ''main'')]
   \<and> getVersionsContent_times 3 (snd (getVersionsContent exampleStrategy))
       = ([Inr (js ''core:1.2.3:1.2.3''), Inr (js ''core:1.2.3:1.2.3''), Inr (js ''core:1.2.3:1.2.3'')],
          snd (getVersionsContent exampleStrategy))"
proof -
  have f: "fst (getVersionsContent exampleStrategy) = Inr (js ''core:1.2.3:1.2.3'')"
    by (simp add: getVersionsContent_def exampleStrategy_def exampleGitHub_def js_def)
  then have "getVersionsContent exampleStrategy
      = (Inr (js ''core:1.2.3:1.2.3''), snd (getVersionsContent exampleStrategy))"
    by (simp add: prod_eq_iff)
  note m = getVersionsContent_memoized [OF this, of 3]
  have e: "versionsContent exampleStrategy = None" "requests (github exampleStrategy) = []"
    "addPath exampleStrategy (js ''versions.txt'') = js ''java/versions.txt''"
    "targetBranch exampleStrategy = js ''main''"
    by (simp_all add: exampleStrategy_def exampleGitHub_def js_def)
  have r: "replicate 3 x = [x, x, x]" for x :: "error + jsstring"
    by (simp add: numeral_3_eq_3)
  from m f show ?thesis
    unfolding e r by simp
qed

subsection \<open>The update plan\<close>

text \<open>
  Each \<^verbatim>\<open>forEach\<close> of \<open>buildUpdates\<close> appends one descriptor per element, in order;
  so the plan is the concatenation below whenever the three searches return.
\<close>

lemma forEach_push: "forEach xs (\<lambda>x updates. updates @ [f x]) updates = updates @ map f xs"
  by (induction xs arbitrary: updates) (simp_all add: forEach_def)

lemma forEach_extraFiles:
  "forEach es (\<lambda>extraFile updates.
       case extraFile of ExtraObject _ \<Rightarrow> updates | ExtraPath file \<Rightarrow> updates @ [f file]) updates
     = updates @ map f (plainPaths es)"
proof (induction es arbitrary: updates)
  case Nil
  then show ?case by (simp add: forEach_def)
next
  case (Cons e es)
  then show ?case
    by (cases e) (simp_all add: forEach_def)
qed

lemma buildUpdates_plan:
  assumes "findFilesByFilenameAndRef (github this) (js ''pom.xml'') (targetBranch this) (path' this)
             = Inr pomFiles"
    and "findFilesByFilenameAndRef (github this) (js ''build.gradle'') (targetBranch this) (path' this)
             = Inr buildFiles"
    and "findFilesByFilenameAndRef (github this) (js ''dependencies.properties'') (targetBranch this)
             (path' this) = Inr dependenciesFiles"
  shows "buildUpdates this options = Inr
     ([\<lparr> path = addPath this (js ''versions.txt''), createIfMissing = False,
          cachedFileContents = versionsContent this,
          updater = VersionsManifest (newVersion options) (versionsMap options) \<rparr>]
      @ map (\<lambda>file. \<lparr> path = addPath this file, createIfMissing = False,
                cachedFileContents = None,
                updater = JavaUpdate (newVersion options) (versionsMap options) (isSnapshot options) \<rparr>)
          (pomFiles @ buildFiles @ dependenciesFiles)
      @ map (\<lambda>file. \<lparr> path = file, createIfMissing = False,
                cachedFileContents = None,
                updater = JavaUpdate (newVersion options) (versionsMap options) (isSnapshot options) \<rparr>)
          (plainPaths (extraFiles this))
      @ (if \<not> isSnapshot options \<and> \<not> skipChangelog this
         then [\<lparr> path = addPath this (changelogPath this), createIfMissing = True,
                 cachedFileContents = None,
                 updater = Changelog (newVersion options) (changelogEntry options) \<rparr>]
         else []))"
  unfolding buildUpdates_def Let_def assms
  by (simp add: forEach_push forEach_extraFiles)

lemma buildUpdates_Inr_searches:
  assumes "buildUpdates this options = Inr updates"
  shows "\<exists>pomFiles buildFiles dependenciesFiles.
     findFilesByFilenameAndRef (github this) (js ''pom.xml'') (targetBranch this) (path' this)
       = Inr pomFiles
   \<and> findFilesByFilenameAndRef (github this) (js ''build.gradle'') (targetBranch this) (path' this)
       = Inr buildFiles
   \<and> findFilesByFilenameAndRef (github this) (js ''dependencies.properties'') (targetBranch this)
       (path' this) = Inr dependenciesFiles"
  using assms unfolding buildUpdates_def Let_def
  by (auto split: sum.splits)

text \<open>
  The definitions the example instance is evaluated with.
\<close>

lemmas example_eval =
  exampleStrategy_def exampleGitHub_def exampleOptions_def versionsMapOf_def js_def

text \<open>
  C3. When the three searches return, \<open>buildUpdates\<close> returns, in this order: the
  descriptor of the versions registry (not created if missing, with the cached
  contents), one descriptor per pom.xml path, per build.gradle path and per
  dependencies.properties path, one per plain extra file, and, when the release is not
  a snapshot and the changelog is not skipped, one changelog descriptor (created if
  missing) at the end. With one pom.xml, one build.gradle, no dependencies.properties
  and one plain extra file, not a snapshot and the changelog not skipped, the plan has
  five descriptors and the changelog descriptor is the last.
\<close>

theorem buildUpdates_order:
  assumes "findFilesByFilenameAndRef (github this) (js ''pom.xml'') (targetBranch this) (path' this)
             = Inr pomFiles"
    and "findFilesByFilenameAndRef (github this) (js ''build.gradle'') (targetBranch this) (path' this)
             = Inr buildFiles"
    and "findFilesByFilenameAndRef (github this) (js ''dependencies.properties'') (targetBranch this)
             (path' this) = Inr dependenciesFiles"
  shows "buildUpdates this options = Inr
     ([\<lparr> path = addPath this (js ''versions.txt''), createIfMissing = False,
          cachedFileContents = versionsContent this,
          updater = VersionsManifest (newVersion options) (versionsMap options) \<rparr>]
      @ map (\<lambda>file. \<lparr> path = addPath this file, createIfMissing = False,
                cachedFileContents = None,
                updater = JavaUpdate (newVersion options) (versionsMap options) (isSnapshot options) \<rparr>)
          (pomFiles @ buildFiles @ dependenciesFiles)
      @ map (\<lambda>file. \<lparr> path = file, createIfMissing = False,
                cachedFileContents = None,
                updater = JavaUpdate (newVersion options) (versionsMap options) (isSnapshot options) \<rparr>)
          (plainPaths (extraFiles this))
      @ (if \<not> isSnapshot options \<and> \<not> skipChangelog this
         then [\<lparr> path = addPath this (changelogPath this), createIfMissing = True,
                 cachedFileContents = None,
                 updater = Changelog (newVersion options) (changelogEntry options) \<rparr>]
         else []))
   \<and> (length pomFiles = 1 \<and> length buildFiles = 1 \<and> length dependenciesFiles = 0
        \<and> length (plainPaths (extraFiles this)) = 1
        \<and> \<not> isSnapshot options \<and> \<not> skipChangelog this \<longrightarrow>
        (\<exists>updates. buildUpdates this options = Inr updates \<and> length updates = 5
           \<and> last updates = \<lparr> path = addPath this (changelogPath this), createIfMissing = True,
                 cachedFileContents = None,
                 updater = Changelog (newVersion options) (changelogEntry options) \<rparr>))"
  unfolding buildUpdates_plan [OF assms] by simp

text \<open>
  C3 on the example instance: the five descriptors, the changelog last.
\<close>

theorem buildUpdates_order_witness:
  "buildUpdates exampleStrategy exampleOptions = Inr
     [\<lparr> path = js ''java/versions.txt'', createIfMissing = False, cachedFileContents = None,
         updater = VersionsManifest (js ''1.2.4'')
           (versionsMapOf [(js ''core'', js ''1.2.4''), (js ''core-v2beta'', js ''0.3.0'')]) \<rparr>,
      \<lparr> path = js ''java/pom.xml'', createIfMissing = False, cachedFileContents = None,
         updater = JavaUpdate (js ''1.2.4'')
           (versionsMapOf [(js ''core'', js ''1.2.4''), (js ''core-v2beta'', js ''0.3.0'')]) False \<rparr>,
      \<lparr> path = js ''java/build.gradle'', createIfMissing = False, cachedFileContents = None,
         updater = JavaUpdate (js ''1.2.4'')
           (versionsMapOf [(js ''core'', js ''1.2.4''), (js ''core-v2beta'', js ''0.3.0'')]) False \<rparr>,
      \<lparr> path = js ''README.md'', createIfMissing = False, cachedFileContents = None,
         updater = JavaUpdate (js ''1.2.4'')
           (versionsMapOf [(js ''core'', js ''1.2.4''), (js ''core-v2beta'', js ''0.3.0'')]) False \<rparr>,
      \<lparr> path = js ''java/CHANGELOG.md'', createIfMissing = True, cachedFileContents = None,
         updater = Changelog (js ''1.2.4'') (js ''### Bug Fixes'') \<rparr>]"
proof -
  have 1: "findFilesByFilenameAndRef (github exampleStrategy) (js ''pom.xml'')
             (targetBranch exampleStrategy) (path' exampleStrategy) = Inr [js ''pom.xml'']"
    by (simp add: example_eval)
  have 2: "findFilesByFilenameAndRef (github exampleStrategy) (js ''build.gradle'')
             (targetBranch exampleStrategy) (path' exampleStrategy) = Inr [js ''build.gradle'']"
    by (simp add: example_eval)
  have 3: "findFilesByFilenameAndRef (github exampleStrategy) (js ''dependencies.properties'')
             (targetBranch exampleStrategy) (path' exampleStrategy) = Inr []"
    by (simp add: example_eval)
  from buildUpdates_order [OF 1 2 3, of exampleOptions, THEN conjunct1] show ?thesis
    by (simp add: example_eval)
qed

text \<open>
  C8. A plan that \<open>buildUpdates\<close> returns holds exactly one changelog descriptor when
  the release is not a snapshot and the changelog is not skipped, and none otherwise;
  so a snapshot plan holds none, whatever \<open>skipChangelog\<close> is. The changelog
  descriptor, when there is one, is the last of the plan and is created if missing.
\<close>

theorem buildUpdates_changelog:
  assumes "buildUpdates this options = Inr updates"
  shows "length (filter (\<lambda>update. isChangelog (updater update)) updates)
           = (if \<not> isSnapshot options \<and> \<not> skipChangelog this then 1 else 0)
       \<and> (isSnapshot options \<longrightarrow> list_all (\<lambda>update. \<not> isChangelog (updater update)) updates)
       \<and> (\<not> isSnapshot options \<and> \<not> skipChangelog this \<longrightarrow>
            isChangelog (updater (last updates)) \<and> createIfMissing (last updates))"
proof -
  from buildUpdates_Inr_searches [OF assms] obtain pomFiles buildFiles dependenciesFiles where
    "findFilesByFilenameAndRef (github this) (js ''pom.xml'') (targetBranch this) (path' this)
       = Inr pomFiles"
    "findFilesByFilenameAndRef (github this) (js ''build.gradle'') (targetBranch this) (path' this)
       = Inr buildFiles"
    "findFilesByFilenameAndRef (github this) (js ''dependencies.properties'') (targetBranch this)
       (path' this) = Inr dependenciesFiles"
    by blast
  from buildUpdates_plan [OF this, of options] assms show ?thesis
    by (auto simp: list_all_iff filter_empty_conv)
qed

text \<open>
  C8 on the example instance: no changelog descriptor in the snapshot plan, with the
  changelog skipped or not; one, at the end, in the release plan.
\<close>

theorem buildUpdates_changelog_witness:
  "map_sum id (map (\<lambda>update. isChangelog (updater update)))
       (buildUpdates exampleStrategy (exampleOptions\<lparr>isSnapshot := True\<rparr>))
     = Inr [False, False, False, False]
   \<and> map_sum id (map (\<lambda>update. isChangelog (updater update)))
       (buildUpdates (exampleStrategy\<lparr>skipChangelog := True\<rparr>) (exampleOptions\<lparr>isSnapshot := True\<rparr>))
     = Inr [False, False, False, False]
   \<and> map_sum id (map (\<lambda>update. isChangelog (updater update)))
       (buildUpdates exampleStrategy exampleOptions)
     = Inr [False, False, False, False, True]"
proof -
  have 1: "findFilesByFilenameAndRef (github exampleStrategy) (js ''pom.xml'')
             (targetBranch exampleStrategy) (path' exampleStrategy) = Inr [js ''pom.xml'']"
    by (simp add: example_eval)
  have 2: "findFilesByFilenameAndRef (github exampleStrategy) (js ''build.gradle'')
             (targetBranch exampleStrategy) (path' exampleStrategy) = Inr [js ''build.gradle'']"
    by (simp add: example_eval)
  have 3: "findFilesByFilenameAndRef (github exampleStrategy) (js ''dependencies.properties'')
             (targetBranch exampleStrategy) (path' exampleStrategy) = Inr []"
    by (simp add: example_eval)
  note u = buildUpdates_plan [OF 1 2 3, of "exampleOptions\<lparr>isSnapshot := True\<rparr>"]
  have s: "isSnapshot (exampleOptions\<lparr>isSnapshot := True\<rparr>)"
    by simp
  from buildUpdates_changelog [OF u] s show ?thesis
    by (simp add: buildUpdates_def forEach_def Let_def example_eval)
qed

text \<open>
  C10. In the plan the path of the registry, of every discovered build file and of the
  changelog is \<open>addPath\<close> of the file, and the path of a plain extra file is the
  entry of the configuration itself, with no \<open>addPath\<close>.
\<close>

theorem buildUpdates_paths:
  assumes "findFilesByFilenameAndRef (github this) (js ''pom.xml'') (targetBranch this) (path' this)
             = Inr pomFiles"
    and "findFilesByFilenameAndRef (github this) (js ''build.gradle'') (targetBranch this) (path' this)
             = Inr buildFiles"
    and "findFilesByFilenameAndRef (github this) (js ''dependencies.properties'') (targetBranch this)
             (path' this) = Inr dependenciesFiles"
  shows "\<exists>updates. buildUpdates this options = Inr updates
     \<and> map path updates =
         [addPath this (js ''versions.txt'')]
         @ map (addPath this) (pomFiles @ buildFiles @ dependenciesFiles)
         @ plainPaths (extraFiles this)
         @ (if \<not> isSnapshot options \<and> \<not> skipChangelog this
            then [addPath this (changelogPath this)] else [])"
  unfolding buildUpdates_plan [OF assms] by (simp add: comp_def)

text \<open>
  C10 on the example instance, whose \<open>addPath\<close> puts "java/" before a file: the extra
  file README.md keeps its path.
\<close>

theorem buildUpdates_paths_witness:
  "map_sum id (map path) (buildUpdates exampleStrategy exampleOptions)
     = Inr [js ''java/versions.txt'', js ''java/pom.xml'', js ''java/build.gradle'',
            js ''README.md'', js ''java/CHANGELOG.md'']"
proof -
  have 1: "findFilesByFilenameAndRef (github exampleStrategy) (js ''pom.xml'')
             (targetBranch exampleStrategy) (path' exampleStrategy) = Inr [js ''pom.xml'']"
    by (simp add: example_eval)
  have 2: "findFilesByFilenameAndRef (github exampleStrategy) (js ''build.gradle'')
             (targetBranch exampleStrategy) (path' exampleStrategy) = Inr [js ''build.gradle'']"
    by (simp add: example_eval)
  have 3: "findFilesByFilenameAndRef (github exampleStrategy) (js ''dependencies.properties'')
             (targetBranch exampleStrategy) (path' exampleStrategy) = Inr []"
    by (simp add: example_eval)
  from buildUpdates_paths [OF 1 2 3, of exampleOptions] obtain updates where
    "buildUpdates exampleStrategy exampleOptions = Inr updates"
    "map path updates =
         [addPath exampleStrategy (js ''versions.txt'')]
         @ map (addPath exampleStrategy) ([js ''pom.xml''] @ [js ''build.gradle''] @ [])
         @ plainPaths (extraFiles exampleStrategy)
         @ (if \<not> isSnapshot exampleOptions \<and> \<not> skipChangelog exampleStrategy
            then [addPath exampleStrategy (changelogPath exampleStrategy)] else [])"
    by blast
  then show ?thesis
    by (simp add: example_eval)
qed

subsection \<open>Commit normalisation\<close>

text \<open>
  C7. On the empty commit list \<open>postProcessCommits\<close> returns exactly one synthetic
  commit: type "fake", no scope, not breaking, no notes, no touched files and the
  sentinel sha "fake". On a non-empty list it returns the list it was given, so the
  length and the content are the same.
\<close>

theorem postProcessCommits_normalises:
  "(\<exists>c. postProcessCommits ([] :: 'r ConventionalCommit list) = [c]
        \<and> type c = js ''fake'' \<and> scope c = None \<and> \<not> breaking c
        \<and> notes' c = [] \<and> files c = [] \<and> sha c = js ''fake'')
   \<and> ((commits :: 'r ConventionalCommit list) \<noteq> [] \<longrightarrow>
        postProcessCommits commits = commits
        \<and> length (postProcessCommits commits) = length commits)"
  by (simp add: postProcessCommits_def fakeCommit_def)

text \<open>C7 on a list of two commits: it is returned as it is.\<close>

theorem postProcessCommits_normalises_witness:
  "postProcessCommits [fakeCommit :: nat ConventionalCommit, fakeCommit\<lparr>sha := js ''abc''\<rparr>]
     = [fakeCommit, fakeCommit\<lparr>sha := js ''abc''\<rparr>]
   \<and> length (postProcessCommits
        [fakeCommit :: nat ConventionalCommit, fakeCommit\<lparr>sha := js ''abc''\<rparr>]) = 2"
  using postProcessCommits_normalises
    [of "[fakeCommit :: nat ConventionalCommit, fakeCommit\<lparr>sha := js ''abc''\<rparr>]"]
  by simp

end
